theory Spec2Isabelle
  imports Complex_Main "HOL-Library.Sublist"
begin

section \<open>The front end: services/api.ts and the results page\<close>

subsection \<open>JavaScript numbers, as far as comparison reads them\<close>

text \<open>
  A JavaScript number is an IEEE double. The results page only compares numbers with
  \<open><\<close>, and a comparison reads the exact value of both operands: it is false as soon as
  one operand is NaN, and orders the infinities below and above every finite value.
  Every finite double is a real number, so the finite values are modelled by \<open>real\<close>
  (a superset of the doubles; the two zeros compare equal and are both \<open>Fin 0\<close>).
\<close>

datatype number = NaN | NegInf | Fin real | PosInf

fun js_lt :: "number \<Rightarrow> number \<Rightarrow> bool" where
  "js_lt NaN _ = False"
| "js_lt _ NaN = False"
| "js_lt NegInf NegInf = False"
| "js_lt NegInf _ = True"
| "js_lt (Fin a) (Fin b) = (a < b)"
| "js_lt (Fin a) PosInf = True"
| "js_lt (Fin a) NegInf = False"
| "js_lt PosInf _ = False"

fun js_le :: "number \<Rightarrow> number \<Rightarrow> bool" where
  "js_le NaN _ = False"
| "js_le _ NaN = False"
| "js_le NegInf _ = True"
| "js_le (Fin a) (Fin b) = (a \<le> b)"
| "js_le (Fin a) PosInf = True"
| "js_le (Fin a) NegInf = False"
| "js_le PosInf PosInf = True"
| "js_le PosInf _ = False"

text \<open>
  The literals \<open>0.3\<close> and \<open>0.7\<close> of the source denote the doubles nearest to them:
  \<open>5404319552844595 / 2^54\<close> and \<open>6305039478318694 / 2^53\<close>.
\<close>

definition lit_0_3 :: number where
  "lit_0_3 = Fin (5404319552844595 / 18014398509481984)"

definition lit_0_7 :: number where
  "lit_0_7 = Fin (6305039478318694 / 9007199254740992)"

subsection \<open>ResultsPage: severity classifiers\<close>

text \<open>\<open>getSeverityLabel\<close> of the results page: two comparisons, in the source's order.\<close>

definition getSeverityLabel :: "number \<Rightarrow> string" where
  "getSeverityLabel severity =
     (if js_lt severity lit_0_3 then ''Minor''
      else if js_lt severity lit_0_7 then ''Moderate''
      else ''Severe'')"

text \<open>\<open>getSeverityColor\<close> of the results page, with the same two comparisons.\<close>

definition getSeverityColor :: "number \<Rightarrow> string" where
  "getSeverityColor severity =
     (if js_lt severity lit_0_3 then ''success''
      else if js_lt severity lit_0_7 then ''warning''
      else ''error'')"

subsection \<open>apiService.getImageUrl\<close>

text \<open>
  \<open>API_BASE_URL\<close> is \<open>process.env.REACT_APP_API_URL || 'http://localhost:8000'\<close>: the
  environment variable when it is set to a non-empty string, the default otherwise
  (\<open>||\<close> takes its right operand when the left one is \<open>undefined\<close> or \<open>''\<close>).
  The environment is a parameter of the model.
\<close>

definition API_BASE_URL :: "string option \<Rightarrow> string" where
  "API_BASE_URL env =
     (case env of
        None \<Rightarrow> ''http://localhost:8000''
      | Some u \<Rightarrow> if u = [] then ''http://localhost:8000'' else u)"

text \<open>
  \<open>apiService.getImageUrl\<close>: \<open>path.startsWith('http')\<close> is the prefix test, the template
  string is concatenation.
\<close>

definition getImageUrl :: "string option \<Rightarrow> string \<Rightarrow> string" where
  "getImageUrl env path =
     (if prefix ''http'' path then path
      else API_BASE_URL env @ ''/'' @ path)"

section \<open>The analysis engine\<close>

text \<open>
  The engine behind \<open>apiService.analyzeProject\<close> (the README's \<open>backend/services\<close>:
  \<open>image_processor.py\<close>, \<open>paint_analyzer.py\<close>) is not among the source files; the front end
  only declares the shape of its result (\<open>AnalysisRegion\<close>, \<open>AnalysisResult\<close>) and calls it
  over HTTP. Every definition of this section is therefore modelled from the specification,
  section by section, and says so. What the specification leaves open (the colour space,
  the luminance formula, the texture descriptor, the resampling filter) is a parameter of
  the model; where it names an aggregate without a formula, the choice made here is stated.
\<close>

subsection \<open>Images, rectangles and the grid (specification 3, 4.2)\<close>

text \<open>
  Modelled from the spec: the Image of the data model, which the absent engine decodes: a
  width, a height and the 8-bit RGB samples, row by row.
\<close>

record image =
  img_width :: nat
  img_height :: nat
  img_pixels :: "(nat \<times> nat \<times> nat) list"

text \<open>
  Modelled from the spec: the rectangle \<open>(x, y, w, h)\<close> of a grid cell or of a region, in
  pixels (the engine's rectangle type is not among the source files).
\<close>

record rect =
  rect_x :: nat
  rect_y :: nat
  rect_w :: nat
  rect_h :: nat

text \<open>Modelled from the spec: the identity \<open>(row, col)\<close> of a cell of the absent engine's grid.\<close>

type_synonym cell = "nat \<times> nat"

text \<open>
  Modelled from the spec: \<open>ceil(height/cellSize)\<close> of the absent Grid Partitioner, written
  with the ceiling of the real quotient as the specification does.
\<close>

definition ceil_div :: "nat \<Rightarrow> nat \<Rightarrow> nat" where
  "ceil_div a b = nat \<lceil>real a / real b\<rceil>"

text \<open>
  Modelled from the spec: the rectangle of cell \<open>(row, col)\<close> of the absent Grid Partitioner:
  cells of \<open>cellSize\<close> pixels, the last row and column clipped to the image bounds.
\<close>

definition cell_rect :: "nat \<Rightarrow> nat \<Rightarrow> nat \<Rightarrow> cell \<Rightarrow> rect" where
  "cell_rect W H cs rc =
     \<lparr>rect_x = snd rc * cs, rect_y = fst rc * cs,
      rect_w = min cs (W - snd rc * cs), rect_h = min cs (H - fst rc * cs)\<rparr>"

text \<open>
  Modelled from the spec: the Grid of the data model (\<open>rows \<times> cols\<close> cells, each identified
  by \<open>(row, col)\<close> and a rectangle), produced by the absent Grid Partitioner.
\<close>

record grid =
  grid_rows :: nat
  grid_cols :: nat
  grid_cells :: "(cell \<times> rect) list"

text \<open>
  Modelled from the spec: the absent Grid Partitioner (4.2): \<open>rows = ceil(height/cellSize)\<close>,
  \<open>cols = ceil(width/cellSize)\<close> and the per-cell rectangles, in row-major order.
\<close>

definition partition_grid :: "nat \<Rightarrow> nat \<Rightarrow> nat \<Rightarrow> grid" where
  "partition_grid W H cs =
     (let rows = ceil_div H cs; cols = ceil_div W cs in
      \<lparr>grid_rows = rows, grid_cols = cols,
       grid_cells =
         concat (map (\<lambda>r. map (\<lambda>c. ((r, c), cell_rect W H cs (r, c))) [0..<cols]) [0..<rows])\<rparr>)"

text \<open>A pixel \<open>(x, y)\<close> lies in a rectangle; used to state the tiling property.\<close>

definition in_rect :: "rect \<Rightarrow> nat \<times> nat \<Rightarrow> bool" where
  "in_rect R p = (rect_x R \<le> fst p \<and> fst p < rect_x R + rect_w R \<and>
                  rect_y R \<le> snd p \<and> snd p < rect_y R + rect_h R)"

text \<open>The set of pixels that a rectangle covers.\<close>

definition pixels_of :: "rect \<Rightarrow> (nat \<times> nat) set" where
  "pixels_of R = {p. in_rect R p}"

text \<open>The first rectangle lies inside the second.\<close>

definition rect_subset :: "rect \<Rightarrow> rect \<Rightarrow> bool" where
  "rect_subset A B =
     (rect_x B \<le> rect_x A \<and> rect_x A + rect_w A \<le> rect_x B + rect_w B \<and>
      rect_y B \<le> rect_y A \<and> rect_y A + rect_h A \<le> rect_y B + rect_h B)"

text \<open>A rectangle lies inside the image of the given width and height.\<close>

definition rect_within :: "nat \<Rightarrow> nat \<Rightarrow> rect \<Rightarrow> bool" where
  "rect_within W H R = (rect_x R + rect_w R \<le> W \<and> rect_y R + rect_h R \<le> H)"

subsection \<open>Configuration and the measurements of a cell (specification 4.3 to 4.5, 6)\<close>

text \<open>
  Modelled from the spec: the configuration of the absent \<open>analyze\<close> operation (6): the cell
  size, the per-axis thresholds (the colour axis' "changed" threshold, the coverage axis'
  low and high thresholds), the fusion weights and the detection threshold of 4.6, the
  score-penalty weights of 4.7 and the minimum image dimensions. The two scales are the
  ranges to which colour distance and intensity delta are normalised (3: "each normalized
  to a comparable range"), which the specification does not fix.
\<close>

record config =
  cellSize :: nat
  color_threshold :: real
  low_threshold :: real
  high_threshold :: real
  color_scale :: real
  intensity_scale :: real
  weight_color :: real
  weight_coverage :: real
  weight_texture :: real
  detection_threshold :: real
  penalty_change :: real
  penalty_coverage :: real
  penalty_texture :: real
  min_width :: nat
  min_height :: nat

text \<open>
  Modelled from the spec: what the absent analyzers read off a cell of an image. The
  specification names each statistic and leaves its formula open ("e.g., Lab-like",
  "luminance/intensity", "local variance of intensity and/or an edge-density measure",
  "area-preserving interpolation"), so the four are parameters: the mean colour of the cell
  in the working colour space, its mean intensity, its texture descriptor, and the
  resampling of an image to given dimensions.
\<close>

record measures =
  cell_color :: "image \<Rightarrow> rect \<Rightarrow> real \<times> real \<times> real"
  cell_intensity :: "image \<Rightarrow> rect \<Rightarrow> real"
  cell_texture :: "image \<Rightarrow> rect \<Rightarrow> real"
  resample :: "nat \<Rightarrow> nat \<Rightarrow> image \<Rightarrow> image"

text \<open>
  Modelled from the spec: the CellMetric of the data model, one record per cell for the
  three axes of the absent analyzers: colour distance, signed intensity delta, and the
  texture difference, raw and normalised.
\<close>

record cell_metric =
  cm_cell :: cell
  cm_rect :: rect
  cm_color_distance :: real
  cm_intensity_delta :: real
  cm_texture_difference :: real
  cm_texture_normalized :: real

text \<open>
  Modelled from the spec: the distance of the absent Color Analyzer (4.3) between the two
  mean colours of a cell; of "Euclidean or Delta-E style" the Euclidean one.
\<close>

definition euclid :: "real \<times> real \<times> real \<Rightarrow> real \<times> real \<times> real \<Rightarrow> real" where
  "euclid a b =
     sqrt ((fst a - fst b)\<^sup>2 + (fst (snd a) - fst (snd b))\<^sup>2 + (snd (snd a) - snd (snd b))\<^sup>2)"

text \<open>
  Modelled from the spec: the "normalized difference" by which the absent Texture Analyzer
  (4.5) compares two descriptors: the difference over the sum of the magnitudes, 0 for
  equal descriptors.
\<close>

definition normalized_difference :: "real \<Rightarrow> real \<Rightarrow> real" where
  "normalized_difference a b = (if a = b then 0 else \<bar>a - b\<bar> / (\<bar>a\<bar> + \<bar>b\<bar>))"

text \<open>Modelled from the spec: the clamping of the absent Score Aggregator (4.7).\<close>

definition clamp :: "real \<Rightarrow> real \<Rightarrow> real \<Rightarrow> real" where
  "clamp lo hi v = max lo (min hi v)"

text \<open>
  Modelled from the spec: the global means of the absent analyzers. Over no cell at all the
  mean is 0, the neutral contribution that 7 prescribes for a degenerate computation.
\<close>

definition mean :: "real list \<Rightarrow> real" where
  "mean vs = (if vs = [] then 0 else sum_list vs / real (length vs))"

text \<open>
  Modelled from the spec: the percentages of the absent analyzers (\<open>change_percentage\<close>,
  \<open>poor_coverage_percentage\<close>): the share of the cells that satisfy a test, out of 100.
\<close>

definition percentage :: "('a \<Rightarrow> bool) \<Rightarrow> 'a list \<Rightarrow> real" where
  "percentage P xs =
     (if xs = [] then 0 else 100 * real (length (filter P xs)) / real (length xs))"

text \<open>
  Modelled from the spec: the per-cell work of the three absent analyzers (4.3 to 4.5) on
  one cell of the shared grid: distance of the mean colours, signed delta of the mean
  intensities (after minus before), difference of the texture descriptors.
\<close>

definition measure_cell :: "measures \<Rightarrow> image \<Rightarrow> image \<Rightarrow> cell \<times> rect \<Rightarrow> cell_metric" where
  "measure_cell M before after cr =
     \<lparr>cm_cell = fst cr, cm_rect = snd cr,
      cm_color_distance = euclid (cell_color M before (snd cr)) (cell_color M after (snd cr)),
      cm_intensity_delta = cell_intensity M after (snd cr) - cell_intensity M before (snd cr),
      cm_texture_difference = \<bar>cell_texture M before (snd cr) - cell_texture M after (snd cr)\<bar>,
      cm_texture_normalized =
        normalized_difference (cell_texture M before (snd cr)) (cell_texture M after (snd cr))\<rparr>"

text \<open>
  Modelled from the spec: the metrics of every cell of the grid of the "before" image, in
  grid order (the absent analyzers share one grid, 4.2).
\<close>

definition cell_metrics :: "measures \<Rightarrow> config \<Rightarrow> image \<Rightarrow> image \<Rightarrow> cell_metric list" where
  "cell_metrics M cfg before after =
     map (measure_cell M before after)
       (grid_cells (partition_grid (img_width before) (img_height before) (cellSize cfg)))"

text \<open>
  Modelled from the spec: the summary of the colour axis in the absent engine's result (the
  field \<open>color_analysis\<close>, typed \<open>any\<close> in \<open>AnalysisResult\<close>; the results page reads these
  two members).
\<close>

record ColorAnalysis =
  mean_color_difference :: real
  change_percentage :: real

text \<open>
  Modelled from the spec: the summary of the coverage axis in the absent engine's result
  (the field \<open>coverage_analysis\<close>, typed \<open>any\<close>).
\<close>

record CoverageAnalysis =
  mean_intensity_change :: real
  poor_coverage_percentage :: real

text \<open>
  Modelled from the spec: the summary of the texture axis in the absent engine's result
  (the field \<open>texture_analysis\<close>, typed \<open>any\<close>).
\<close>

record TextureAnalysis =
  texture_consistency_score :: real
  mean_texture_difference :: real

text \<open>
  Modelled from the spec: the global statistics of the absent Color Analyzer (4.3): the mean
  colour difference and the percentage of cells whose colour distance exceeds the "changed"
  threshold.
\<close>

definition analyze_color :: "config \<Rightarrow> cell_metric list \<Rightarrow> ColorAnalysis" where
  "analyze_color cfg ms =
     \<lparr>mean_color_difference = mean (map cm_color_distance ms),
      change_percentage = percentage (\<lambda>m. color_threshold cfg < cm_color_distance m) ms\<rparr>"

text \<open>
  Modelled from the spec: the global statistics of the absent Coverage Analyzer (4.4): a
  cell is "poor coverage" if its intensity delta falls below the low threshold.
\<close>

definition analyze_coverage :: "config \<Rightarrow> cell_metric list \<Rightarrow> CoverageAnalysis" where
  "analyze_coverage cfg ms =
     \<lparr>mean_intensity_change = mean (map cm_intensity_delta ms),
      poor_coverage_percentage = percentage (\<lambda>m. cm_intensity_delta m < low_threshold cfg) ms\<rparr>"

text \<open>
  Modelled from the spec: the global statistics of the absent Texture Analyzer (4.5): one
  minus the mean normalised texture difference, and the raw mean.
\<close>

definition analyze_texture :: "cell_metric list \<Rightarrow> TextureAnalysis" where
  "analyze_texture ms =
     \<lparr>texture_consistency_score = 1 - mean (map cm_texture_normalized ms),
      mean_texture_difference = mean (map cm_texture_difference ms)\<rparr>"

subsection \<open>Problem Detector and Classifier (specification 4.6)\<close>

text \<open>
  Modelled from the spec: the share of the colour axis in the fused severity of a cell, in
  the absent Problem Detector: the fusion weight times the normalised score, which is the
  colour distance over its scale, cut to [0,1].
\<close>

definition color_share :: "config \<Rightarrow> cell_metric \<Rightarrow> real" where
  "color_share cfg m = weight_color cfg * clamp 0 1 (cm_color_distance m / color_scale cfg)"

text \<open>
  Modelled from the spec: the share of the coverage axis in the absent Problem Detector:
  the fusion weight times the magnitude of the intensity delta over its scale, cut to
  [0,1].
\<close>

definition coverage_share :: "config \<Rightarrow> cell_metric \<Rightarrow> real" where
  "coverage_share cfg m =
     weight_coverage cfg * clamp 0 1 (\<bar>cm_intensity_delta m\<bar> / intensity_scale cfg)"

text \<open>
  Modelled from the spec: the share of the texture axis in the absent Problem Detector: the
  fusion weight times the normalised texture difference.
\<close>

definition texture_share :: "config \<Rightarrow> cell_metric \<Rightarrow> real" where
  "texture_share cfg m = weight_texture cfg * cm_texture_normalized m"

text \<open>
  Modelled from the spec: the fused severity of the absent Problem Detector, "a configurable
  weighted combination of the three normalized per-axis cell scores".
\<close>

definition fused_severity :: "config \<Rightarrow> cell_metric \<Rightarrow> real" where
  "fused_severity cfg m = color_share cfg m + coverage_share cfg m + texture_share cfg m"

text \<open>
  Modelled from the spec: the flag of the absent Problem Detector: the fused severity of
  the cell exceeds the detection threshold.
\<close>

definition is_flagged :: "config \<Rightarrow> cell_metric \<Rightarrow> bool" where
  "is_flagged cfg m = (detection_threshold cfg < fused_severity cfg m)"

text \<open>Modelled from the spec: the three measurement axes of the absent engine.\<close>

datatype axis = Color | Coverage | Texture

text \<open>
  Modelled from the spec: the axis with the largest of three shares, in the absent
  classifier, with the fixed precedence colour, coverage, texture on ties.
\<close>

definition dominant :: "real \<Rightarrow> real \<Rightarrow> real \<Rightarrow> axis" where
  "dominant c v t = (if v \<le> c \<and> t \<le> c then Color else if t \<le> v then Coverage else Texture)"

text \<open>
  Modelled from the spec: the axis that drove the flag of a cell, in the absent classifier:
  the axis with the largest share of the cell's fused severity.
\<close>

definition driving_axis :: "config \<Rightarrow> cell_metric \<Rightarrow> axis" where
  "driving_axis cfg m = dominant (color_share cfg m) (coverage_share cfg m) (texture_share cfg m)"

text \<open>
  Modelled from the spec: the dominant axis of a region in the absent classifier. The
  specification speaks of "the axis contributing the largest share of the fused severity";
  for a region of several cells the shares of its member cells are summed.
\<close>

definition region_axis :: "config \<Rightarrow> cell_metric list \<Rightarrow> axis" where
  "region_axis cfg ms =
     dominant (sum_list (map (color_share cfg) ms)) (sum_list (map (coverage_share cfg) ms))
       (sum_list (map (texture_share cfg) ms))"

text \<open>
  Modelled from the spec: the issue-type rule of the absent classifier: the dominant axis
  gives the label, and the coverage axis gives \<open>over_application\<close> when it flags a high
  intensity delta (here: the mean delta of the member cells exceeds the high threshold)
  rather than a low one. The label is the string that \<open>AnalysisRegion.issue_type\<close> carries.
\<close>

definition classify :: "config \<Rightarrow> cell_metric list \<Rightarrow> string" where
  "classify cfg ms =
     (case region_axis cfg ms of
        Color \<Rightarrow> ''color_inconsistency''
      | Coverage \<Rightarrow>
          if high_threshold cfg < mean (map cm_intensity_delta ms) then ''over_application''
          else ''uneven_coverage''
      | Texture \<Rightarrow> ''texture_variation'')"

text \<open>
  Modelled from the spec: the union of two rectangles in the absent Problem Detector: the
  rectangle that they span.
\<close>

definition rect_union :: "rect \<Rightarrow> rect \<Rightarrow> rect" where
  "rect_union A B =
     \<lparr>rect_x = min (rect_x A) (rect_x B), rect_y = min (rect_y A) (rect_y B),
      rect_w = max (rect_x A + rect_w A) (rect_x B + rect_w B) - min (rect_x A) (rect_x B),
      rect_h = max (rect_y A + rect_h A) (rect_y B + rect_h B) - min (rect_y A) (rect_y B)\<rparr>"

text \<open>
  Modelled from the spec: the bounding box of a region in the absent Problem Detector, "the
  union of its member cells' rectangles", folded over the member cells.
\<close>

fun bounding_box :: "rect list \<Rightarrow> rect" where
  "bounding_box [] = \<lparr>rect_x = 0, rect_y = 0, rect_w = 0, rect_h = 0\<rparr>"
| "bounding_box (R # Rs) = fold rect_union Rs R"

text \<open>
  Modelled from the spec: the region severity of the absent Problem Detector, "the maximum
  of member cell severities".
\<close>

fun maximum :: "real list \<Rightarrow> real" where
  "maximum [] = 0"
| "maximum (v # vs) = fold max vs v"

text \<open>
  The interface \<open>AnalysisRegion\<close> of services/api.ts, field by field (the field names carry the
  prefix \<open>region_\<close>); coordinates and sizes are pixel counts.
\<close>

record AnalysisRegion =
  region_x :: nat
  region_y :: nat
  region_width :: nat
  region_height :: nat
  region_severity :: real
  region_issue_type :: string
  region_confidence :: real

text \<open>The rectangle that the four geometric fields of a region describe.\<close>

definition region_rect :: "AnalysisRegion \<Rightarrow> rect" where
  "region_rect reg =
     \<lparr>rect_x = region_x reg, rect_y = region_y reg,
      rect_w = region_width reg, rect_h = region_height reg\<rparr>"

text \<open>
  Modelled from the spec: the ProblemRegion that the absent Problem Detector builds from
  the member cells of one component. The specification derives the confidence "from the
  consistency of the dominant axis across member cells (higher when most member cells
  agree on which axis drove the flag)" without a formula; it is taken to be the fraction of
  member cells whose own largest share is on the region's dominant axis.
\<close>

definition mk_region :: "config \<Rightarrow> cell_metric list \<Rightarrow> AnalysisRegion" where
  "mk_region cfg ms =
     (let bb = bounding_box (map cm_rect ms) in
      \<lparr>region_x = rect_x bb, region_y = rect_y bb,
       region_width = rect_w bb, region_height = rect_h bb,
       region_severity = maximum (map (fused_severity cfg) ms),
       region_issue_type = classify cfg ms,
       region_confidence =
         real (length (filter (\<lambda>m. driving_axis cfg m = region_axis cfg ms) ms)) /
         real (length ms)\<rparr>)"

text \<open>
  Modelled from the spec: 4-connectivity of the absent Problem Detector: two cells share an
  edge when they are neighbours in the same row or in the same column.
\<close>

definition adjacent :: "cell \<Rightarrow> cell \<Rightarrow> bool" where
  "adjacent a b =
     ((fst a = fst b \<and> (snd a = Suc (snd b) \<or> snd b = Suc (snd a))) \<or>
      (snd a = snd b \<and> (fst a = Suc (fst b) \<or> fst b = Suc (fst a))))"

text \<open>
  Modelled from the spec: 4-connectivity of the absent Problem Detector on cell metrics:
  the cells of the two metrics share an edge.
\<close>

definition cell_adjacent :: "cell_metric \<Rightarrow> cell_metric \<Rightarrow> bool" where
  "cell_adjacent m n = adjacent (cm_cell m) (cm_cell n)"

text \<open>
  Modelled from the spec: the connected-component labelling of the absent Problem Detector,
  as the flood fill that the design notes (9) suggest. \<open>flood\<close> grows one component from a
  frontier: it moves the first frontier cell to the component and its neighbours among the
  cells not yet reached to the end of the frontier; it returns the component and the cells
  left over.
\<close>

function flood :: "('a \<Rightarrow> 'a \<Rightarrow> bool) \<Rightarrow> 'a list \<Rightarrow> 'a list \<Rightarrow> 'a list \<Rightarrow> 'a list \<times> 'a list" where
  "flood adj [] rest acc = (acc, rest)"
| "flood adj (c # frontier) rest acc =
     flood adj (frontier @ filter (adj c) rest) (filter (\<lambda>d. \<not> adj c d) rest) (acc @ [c])"
  by pat_completeness auto
termination
proof (relation "measure (\<lambda>(adj, frontier, rest, acc). length frontier + 2 * length rest)")
  show "wf (measure (\<lambda>(adj :: 'a \<Rightarrow> 'a \<Rightarrow> bool, frontier :: 'a list, rest :: 'a list, acc :: 'a list).
              length frontier + 2 * length rest))"
    by simp
next
  fix adj :: "'a \<Rightarrow> 'a \<Rightarrow> bool" and c frontier rest and acc :: "'a list"
  have "length (filter (adj c) rest) + length (filter (\<lambda>d. \<not> adj c d) rest) = length rest"
    by (rule sum_length_filter_compl)
  then show "((adj, frontier @ filter (adj c) rest, filter (\<lambda>d. \<not> adj c d) rest, acc @ [c]),
              (adj, c # frontier, rest, acc))
             \<in> measure (\<lambda>(adj, frontier, rest, acc). length frontier + 2 * length rest)"
    by simp
qed

text \<open>
  Modelled from the spec: the components of the flagged cells, in the order of their first
  cell: the component of the first cell is flooded out of the list, then the rest is
  labelled in the same way.
\<close>

function components :: "('a \<Rightarrow> 'a \<Rightarrow> bool) \<Rightarrow> 'a list \<Rightarrow> 'a list list" where
  "components adj [] = []"
| "components adj (c # rest) =
     fst (flood adj [c] rest []) # components adj (snd (flood adj [c] rest []))"
  by pat_completeness auto
termination
proof (relation "measure (\<lambda>(adj, cells). length cells)")
  show "wf (measure (\<lambda>(adj :: 'a \<Rightarrow> 'a \<Rightarrow> bool, cells :: 'a list). length cells))" by simp
next
  fix adj :: "'a \<Rightarrow> 'a \<Rightarrow> bool" and c rest
  have shrink: "length (snd (flood adj frontier cells acc)) \<le> length cells"
    for frontier cells acc
  proof (induction adj frontier cells acc rule: flood.induct)
    case (1 adj cells acc)
    then show ?case by simp
  next
    case (2 adj c frontier cells acc)
    have "length (snd (flood adj (c # frontier) cells acc))
            \<le> length (filter (\<lambda>d. \<not> adj c d) cells)"
      using 2 by simp
    also have "\<dots> \<le> length cells" by simp
    finally show ?case .
  qed
  have "length (snd (flood adj [c] rest [])) \<le> length rest"
    by (rule shrink)
  then show "((adj, snd (flood adj [c] rest [])), (adj, c # rest))
             \<in> measure (\<lambda>(adj, cells). length cells)"
    by (simp del: flood.simps add: le_imp_less_Suc)
qed

text \<open>
  A path of shared edges through a set of cells: the reflexive transitive closure of
  "both in the set and adjacent". It says which cells count as connected.
\<close>

definition connected_in :: "('a \<Rightarrow> 'a \<Rightarrow> bool) \<Rightarrow> 'a set \<Rightarrow> 'a \<Rightarrow> 'a \<Rightarrow> bool" where
  "connected_in adj F = (\<lambda>a b. a \<in> F \<and> b \<in> F \<and> adj a b)\<^sup>*\<^sup>*"

text \<open>
  Modelled from the spec: the member cells of the regions of the absent Problem Detector:
  the flagged cells, merged by 4-connectivity.
\<close>

definition region_members :: "config \<Rightarrow> cell_metric list \<Rightarrow> cell_metric list list" where
  "region_members cfg ms = components cell_adjacent (filter (is_flagged cfg) ms)"

text \<open>
  Modelled from the spec: the ordered ProblemRegion list of the absent Problem Detector,
  one region per component.
\<close>

definition detect_regions :: "config \<Rightarrow> cell_metric list \<Rightarrow> AnalysisRegion list" where
  "detect_regions cfg ms = map (mk_region cfg) (region_members cfg ms)"

subsection \<open>Score Aggregator and the operation (specification 4.1, 4.7, 6, 7)\<close>

text \<open>
  Modelled from the spec: the overall score of the absent Score Aggregator (4.7): 100,
  less the change percentage, the poor-coverage percentage and one minus the texture
  consistency, each times its weight, clamped to [0,100].
\<close>

definition aggregate_score ::
  "config \<Rightarrow> ColorAnalysis \<Rightarrow> CoverageAnalysis \<Rightarrow> TextureAnalysis \<Rightarrow> real" where
  "aggregate_score cfg ca va ta =
     clamp 0 100
       (100 - penalty_change cfg * change_percentage ca
            - penalty_coverage cfg * poor_coverage_percentage va
            - penalty_texture cfg * (1 - texture_consistency_score ta))"

text \<open>
  The interface \<open>AnalysisResult\<close> of services/api.ts, restricted to the fields that the engine
  computes from the two images: the project id, the two time fields, the recommendations
  and the visualisation path are left out (no property below reads them), and the status
  and error of a failed analysis are the \<open>Inl\<close> branch of the operation's result.
\<close>

record AnalysisResult =
  overall_score :: real
  issues_detected :: nat
  color_analysis :: ColorAnalysis
  coverage_analysis :: CoverageAnalysis
  texture_analysis :: TextureAnalysis
  problem_regions :: "AnalysisRegion list"

text \<open>Modelled from the spec: the error taxonomy of the absent engine (7).\<close>

datatype error_kind =
  DecodeError | ValidationError | DimensionMismatchError | InternalComputationError

text \<open>
  Modelled from the spec: the failure result of the absent engine (7): the error kind and a
  human-readable message.
\<close>

type_synonym analysis_error = "error_kind \<times> string"

text \<open>
  Modelled from the spec: the linear pipeline of the absent engine (2) on two normalised
  images: partition, measure every cell on the three axes, detect the regions, aggregate.
\<close>

definition run_pipeline :: "measures \<Rightarrow> config \<Rightarrow> image \<Rightarrow> image \<Rightarrow> AnalysisResult" where
  "run_pipeline M cfg before after =
     (let ms = cell_metrics M cfg before after;
          ca = analyze_color cfg ms;
          va = analyze_coverage cfg ms;
          ta = analyze_texture ms;
          regions = detect_regions cfg ms
      in \<lparr>overall_score = aggregate_score cfg ca va ta,
          issues_detected = length regions,
          color_analysis = ca, coverage_analysis = va, texture_analysis = ta,
          problem_regions = regions\<rparr>)"

text \<open>
  Modelled from the spec: the normalisation of the absent Image Loader (4.1): an "after"
  image of other dimensions is resampled to the dimensions of the "before" image.
\<close>

definition normalize_after :: "measures \<Rightarrow> image \<Rightarrow> image \<Rightarrow> image" where
  "normalize_after M before after =
     (if img_width after = img_width before \<and> img_height after = img_height before then after
      else resample M (img_width before) (img_height before) after)"

text \<open>
  Modelled from the spec: the absent \<open>analyze\<close> operation (6), from the two decoded images
  on (decoding is the work of a collaborator): the minimum dimensions are validated, a
  violation is a \<open>ValidationError\<close> naming the image and the constraint (4.1, 7), and the
  pipeline runs on the normalised pair.
\<close>

definition analyze ::
  "measures \<Rightarrow> config \<Rightarrow> image \<Rightarrow> image \<Rightarrow> analysis_error + AnalysisResult" where
  "analyze M cfg before after =
     (if img_width before < min_width cfg \<or> img_height before < min_height cfg
      then Inl (ValidationError, ''before image: below the minimum dimensions'')
      else if img_width after < min_width cfg \<or> img_height after < min_height cfg
      then Inl (ValidationError, ''after image: below the minimum dimensions'')
      else Inr (run_pipeline M cfg before (normalize_after M before after)))"

subsection \<open>A concrete analysis\<close>

text \<open>The pixel of an image at column \<open>px\<close> and row \<open>py\<close>, black out of range.\<close>

definition pixel_at :: "image \<Rightarrow> nat \<Rightarrow> nat \<Rightarrow> nat \<times> nat \<times> nat" where
  "pixel_at img px py =
     (if py * img_width img + px < length (img_pixels img)
      then img_pixels img ! (py * img_width img + px) else (0, 0, 0))"

text \<open>
  An instance of the parameters, on which the definitions are evaluated below: every
  statistic of a cell is read off the pixel in its top left corner (the colour as it is,
  the intensity as the mean of the three channels, the texture descriptor as the green
  channel), and resampling yields a black image.
\<close>

definition example_measures :: measures where
  "example_measures =
     \<lparr>cell_color = (\<lambda>img R. case pixel_at img (rect_x R) (rect_y R) of
                                  (r, g, b) \<Rightarrow> (real r, real g, real b)),
      cell_intensity = (\<lambda>img R. case pixel_at img (rect_x R) (rect_y R) of
                                  (r, g, b) \<Rightarrow> real (r + g + b) / 3),
      cell_texture = (\<lambda>img R. case pixel_at img (rect_x R) (rect_y R) of
                                  (r, g, b) \<Rightarrow> real g),
      resample = (\<lambda>w h img. \<lparr>img_width = w, img_height = h,
                                img_pixels = replicate (w * h) (0, 0, 0)\<rparr>)\<rparr>"

text \<open>
  A configuration: cells of 2 pixels, fusion weights 1/2, 1/4, 1/4, a low coverage
  threshold of 10 and a coverage penalty weight of 1/4.
\<close>

definition example_config :: config where
  "example_config =
     \<lparr>cellSize = 2, color_threshold = 10, low_threshold = 10, high_threshold = 60,
      color_scale = 100, intensity_scale = 100,
      weight_color = 1 / 2, weight_coverage = 1 / 4, weight_texture = 1 / 4,
      detection_threshold = 1 / 5,
      penalty_change = 1 / 2, penalty_coverage = 1 / 4, penalty_texture = 20,
      min_width = 2, min_height = 2\<rparr>"

text \<open>A uniformly grey image of 7 by 2 pixels.\<close>

definition example_before :: image where
  "example_before = \<lparr>img_width = 7, img_height = 2,
     img_pixels =
       [(200, 200, 200), (200, 200, 200), (200, 200, 200), (200, 200, 200),
        (200, 200, 200), (200, 200, 200), (200, 200, 200),
        (200, 200, 200), (200, 200, 200), (200, 200, 200), (200, 200, 200),
        (200, 200, 200), (200, 200, 200), (200, 200, 200)]\<rparr>"

text \<open>
  The same surface after painting: the four columns on the left have lost red, the last
  column has lost green, columns 4 and 5 are unchanged.
\<close>

definition example_after :: image where
  "example_after = \<lparr>img_width = 7, img_height = 2,
     img_pixels =
       [(120, 200, 200), (120, 200, 200), (120, 200, 200), (120, 200, 200),
        (200, 200, 200), (200, 200, 200), (200, 120, 200),
        (120, 200, 200), (120, 200, 200), (120, 200, 200), (120, 200, 200),
        (200, 200, 200), (200, 200, 200), (200, 120, 200)]\<rparr>"

text \<open>The metrics of the four cells of this pair of images, from left to right.\<close>

definition example_cell_a :: cell_metric where
  "example_cell_a =
     \<lparr>cm_cell = (0, 0), cm_rect = \<lparr>rect_x = 0, rect_y = 0, rect_w = 2, rect_h = 2\<rparr>,
      cm_color_distance = 80, cm_intensity_delta = - (80 / 3),
      cm_texture_difference = 0, cm_texture_normalized = 0\<rparr>"

definition example_cell_b :: cell_metric where
  "example_cell_b =
     \<lparr>cm_cell = (0, 1), cm_rect = \<lparr>rect_x = 2, rect_y = 0, rect_w = 2, rect_h = 2\<rparr>,
      cm_color_distance = 80, cm_intensity_delta = - (80 / 3),
      cm_texture_difference = 0, cm_texture_normalized = 0\<rparr>"

definition example_cell_c :: cell_metric where
  "example_cell_c =
     \<lparr>cm_cell = (0, 2), cm_rect = \<lparr>rect_x = 4, rect_y = 0, rect_w = 2, rect_h = 2\<rparr>,
      cm_color_distance = 0, cm_intensity_delta = 0,
      cm_texture_difference = 0, cm_texture_normalized = 0\<rparr>"

definition example_cell_d :: cell_metric where
  "example_cell_d =
     \<lparr>cm_cell = (0, 3), cm_rect = \<lparr>rect_x = 6, rect_y = 0, rect_w = 1, rect_h = 2\<rparr>,
      cm_color_distance = 80, cm_intensity_delta = - (80 / 3),
      cm_texture_difference = 80, cm_texture_normalized = 1 / 4\<rparr>"

text \<open>The two regions of its analysis: the two cells on the left, and the last cell.\<close>

definition example_region_ab :: AnalysisRegion where
  "example_region_ab =
     \<lparr>region_x = 0, region_y = 0, region_width = 4, region_height = 2,
      region_severity = 7 / 15, region_issue_type = ''color_inconsistency'',
      region_confidence = 1\<rparr>"

definition example_region_d :: AnalysisRegion where
  "example_region_d =
     \<lparr>region_x = 6, region_y = 0, region_width = 1, region_height = 2,
      region_severity = 127 / 240, region_issue_type = ''color_inconsistency'',
      region_confidence = 1\<rparr>"

section \<open>Properties of the front end\<close>

lemma js_le_lit_0_3: "js_le lit_0_3 s = (s \<noteq> NaN \<and> \<not> js_lt s lit_0_3)"
  by (cases s) (auto simp: lit_0_3_def)

lemma js_lt_lit_trans: "js_lt s lit_0_3 \<Longrightarrow> js_lt s lit_0_7"
  by (cases s) (auto simp: lit_0_3_def lit_0_7_def)

text \<open>
  C9. For every string \<open>path\<close>, \<open>getImageUrl\<close> returns \<open>path\<close> unchanged when it starts
  with \<open>http\<close>, and otherwise the API base URL, a slash and \<open>path\<close>, concatenated. The
  result depends on nothing but \<open>path\<close> and the base URL (the function is a total HOL
  function of the two).
\<close>

theorem getImageUrl_spec:
  "(prefix ''http'' path \<longrightarrow> getImageUrl env path = path) \<and>
   (\<not> prefix ''http'' path \<longrightarrow> getImageUrl env path = API_BASE_URL env @ ''/'' @ path)"
  by (simp add: getImageUrl_def)

theorem getImageUrl_spec_witness:
  "prefix ''http'' ''https://cdn.example/a.png'' \<and>
   getImageUrl None ''https://cdn.example/a.png'' = ''https://cdn.example/a.png'' \<and>
   \<not> prefix ''http'' ''uploads/p1/before.jpg'' \<and>
   getImageUrl None ''uploads/p1/before.jpg'' = ''http://localhost:8000/uploads/p1/before.jpg''"
  using getImageUrl_spec [of "''https://cdn.example/a.png''" None]
        getImageUrl_spec [of "''uploads/p1/before.jpg''" None]
  by (simp add: API_BASE_URL_def)

text \<open>
  C10. The two severity classifiers cut the numbers at the same two thresholds: the label
  is \<open>Minor\<close> exactly when \<open>severity < 0.3\<close>, \<open>Moderate\<close> exactly when
  \<open>0.3 \<le> severity < 0.7\<close>, and \<open>Severe\<close> in every other case (NaN included); the colour
  is \<open>success\<close>, \<open>warning\<close>, \<open>error\<close> on the same three classes, so label and colour agree.
\<close>

theorem severity_classifiers_partition:
  "(getSeverityLabel s = ''Minor'') = js_lt s lit_0_3 \<and>
   (getSeverityLabel s = ''Moderate'') = (js_le lit_0_3 s \<and> js_lt s lit_0_7) \<and>
   (getSeverityLabel s = ''Severe'') =
      (\<not> js_lt s lit_0_3 \<and> \<not> (js_le lit_0_3 s \<and> js_lt s lit_0_7)) \<and>
   (getSeverityColor s = ''success'') = js_lt s lit_0_3 \<and>
   (getSeverityColor s = ''warning'') = (js_le lit_0_3 s \<and> js_lt s lit_0_7) \<and>
   (getSeverityColor s = ''error'') =
      (\<not> js_lt s lit_0_3 \<and> \<not> (js_le lit_0_3 s \<and> js_lt s lit_0_7)) \<and>
   (getSeverityLabel s = ''Minor'') = (getSeverityColor s = ''success'') \<and>
   (getSeverityLabel s = ''Moderate'') = (getSeverityColor s = ''warning'') \<and>
   (getSeverityLabel s = ''Severe'') = (getSeverityColor s = ''error'')"
  using js_lt_lit_trans [of s]
  by (cases s) (auto simp: getSeverityLabel_def getSeverityColor_def js_le_lit_0_3)

section \<open>Properties of the engine\<close>

subsection \<open>The grid\<close>

lemma ceil_div_less_iff: "0 < b \<Longrightarrow> (q < ceil_div a b) = (q * b < a)"
proof -
  assume b: "0 < b"
  have "(q < ceil_div a b) = (int q < \<lceil>real a / real b\<rceil>)"
    by (simp add: ceil_div_def zless_nat_eq_int_zless)
  also have "\<dots> = (real q < real a / real b)"
    by (simp add: less_ceiling_iff)
  also have "\<dots> = (real q * real b < real a)"
    using b by (simp add: pos_less_divide_eq)
  also have "\<dots> = (q * b < a)"
    by (metis of_nat_less_iff of_nat_mult)
  finally show ?thesis .
qed

lemma ceil_div_code: "0 < b \<Longrightarrow> ceil_div a b = (a + b - 1) div b"
proof -
  assume b: "0 < b"
  have "(q < (a + b - 1) div b) = (q * b < a)" for q
  proof -
    have "(q < (a + b - 1) div b) = (Suc q \<le> (a + b - 1) div b)" by auto
    also have "\<dots> = (Suc q * b \<le> a + b - 1)"
      using b by (simp add: less_eq_div_iff_mult_less_eq)
    also have "\<dots> = (q * b < a)" using b by auto
    finally show ?thesis .
  qed
  then have "(q < (a + b - 1) div b) = (q < ceil_div a b)" for q
    using ceil_div_less_iff [OF b] by simp
  then show ?thesis
    by (metis nat_neq_iff)
qed

lemma grid_cells_set:
  "set (grid_cells (partition_grid W H cs)) =
     {((r, c), cell_rect W H cs (r, c)) | r c. r < ceil_div H cs \<and> c < ceil_div W cs}"
  by (auto simp: partition_grid_def Let_def)

lemma grid_cells_keys:
  "map fst (grid_cells (partition_grid W H cs)) =
     concat (map (\<lambda>r. map (\<lambda>c. (r, c)) [0..<ceil_div W cs]) [0..<ceil_div H cs])"
  by (simp add: partition_grid_def Let_def map_concat comp_def)

lemma distinct_pairs_upt:
  "distinct (concat (map (\<lambda>r. map (\<lambda>c. (r, c)) [0..<m]) [0..<(n::nat)]))"
proof (induction n)
  case 0
  then show ?case by simp
next
  case (Suc n)
  have "distinct (map (\<lambda>c. (n, c)) [0..<m])"
    by (simp add: distinct_map inj_on_def)
  with Suc show ?case by auto
qed

lemma length_pairs_upt:
  "length (concat (map (\<lambda>r. map (f r) [0..<m]) [0..<(n::nat)])) = n * m"
  by (induction n) simp_all

lemma in_cell_rect_iff:
  assumes "0 < cs"
  shows "in_rect (cell_rect W H cs (r, c)) (px, py) =
           (px < W \<and> py < H \<and> c = px div cs \<and> r = py div cs)"
proof -
  have one: "(k * cs \<le> v \<and> v < k * cs + min cs (N - k * cs)) = (v < N \<and> k = v div cs)"
    for k v N :: nat
  proof
    assume h: "k * cs \<le> v \<and> v < k * cs + min cs (N - k * cs)"
    then have "v < k * cs + cs" by (simp add: min_def split: if_splits)
    with h have "v div cs = k"
      by (metis assms div_nat_eqI mult.commute mult_Suc_right add.commute)
    moreover from h have "v < N" by (cases "k * cs \<le> N") auto
    ultimately show "v < N \<and> k = v div cs" by simp
  next
    assume h: "v < N \<and> k = v div cs"
    then have "k * cs \<le> v" by simp
    moreover have "v < k * cs + cs"
      using h assms by (metis dividend_less_div_times add.commute mult.commute)
    ultimately show "k * cs \<le> v \<and> v < k * cs + min cs (N - k * cs)"
      using h by auto
  qed
  show ?thesis
    using one [of c px W] one [of r py H]
    by (auto simp: in_rect_def cell_rect_def)
qed

lemma div_less_ceil_div: "0 < cs \<Longrightarrow> v < N \<Longrightarrow> v div cs < ceil_div N cs"
  by (simp add: ceil_div_less_iff) (metis div_mult_self_is_m div_mult_mod_eq le_add1 order_le_less_trans mult.commute times_div_less_eq_dividend)

lemma cell_rect_clip:
  assumes cs: "0 < cs" and c: "c < ceil_div W cs"
  shows "0 < min cs (W - c * cs)"
    and "c * cs + min cs (W - c * cs) \<le> W"
    and "Suc c < ceil_div W cs \<Longrightarrow> min cs (W - c * cs) = cs"
    and "Suc c = ceil_div W cs \<Longrightarrow> c * cs + min cs (W - c * cs) = W"
proof -
  from c have lt: "c * cs < W" by (simp add: ceil_div_less_iff [OF cs])
  then show "0 < min cs (W - c * cs)" using cs by simp
  from lt show "c * cs + min cs (W - c * cs) \<le> W" by simp
  show "min cs (W - c * cs) = cs" if "Suc c < ceil_div W cs"
  proof -
    from that have "Suc c * cs < W" using ceil_div_less_iff [OF cs, of "Suc c" W] by simp
    then show ?thesis by (simp add: min_def)
  qed
  show "c * cs + min cs (W - c * cs) = W" if "Suc c = ceil_div W cs"
  proof -
    from that have "\<not> Suc c < ceil_div W cs" by simp
    then have "\<not> Suc c * cs < W" using ceil_div_less_iff [OF cs, of "Suc c" W] by simp
    with lt show ?thesis by (auto simp: min_def)
  qed
qed

lemma grid_cells_empty_iff:
  assumes "0 < cs"
  shows "(grid_cells (partition_grid W H cs) = []) = (W = 0 \<or> H = 0)"
proof -
  have "length (grid_cells (partition_grid W H cs)) = ceil_div H cs * ceil_div W cs"
    by (simp add: partition_grid_def Let_def length_pairs_upt)
  then have "(grid_cells (partition_grid W H cs) = []) = (ceil_div H cs = 0 \<or> ceil_div W cs = 0)"
    by (metis length_0_conv mult_is_0)
  also have "\<dots> = (W = 0 \<or> H = 0)"
    using ceil_div_less_iff [OF assms, of 0 H] ceil_div_less_iff [OF assms, of 0 W] by auto
  finally show ?thesis .
qed

subsection \<open>Flood fill and components\<close>

lemma flood_sets:
  "set (fst (flood adj frontier rest acc)) \<union> set (snd (flood adj frontier rest acc)) =
     set acc \<union> set frontier \<union> set rest"
  by (induction adj frontier rest acc rule: flood.induct) auto

lemma flood_acc_subset: "set acc \<union> set frontier \<subseteq> set (fst (flood adj frontier rest acc))"
  by (induction adj frontier rest acc rule: flood.induct) auto

lemma flood_rest_subset: "set (snd (flood adj frontier rest acc)) \<subseteq> set rest"
  by (induction adj frontier rest acc rule: flood.induct) auto

lemma flood_distinct:
  "distinct (acc @ frontier @ rest) \<Longrightarrow>
   distinct (fst (flood adj frontier rest acc) @ snd (flood adj frontier rest acc))"
proof (induction adj frontier rest acc rule: flood.induct)
  case (1 adj rest acc)
  then show ?case by simp
next
  case (2 adj c frontier rest acc)
  have "distinct ((acc @ [c]) @ (frontier @ filter (adj c) rest) @ filter (\<lambda>d. \<not> adj c d) rest)"
    using "2.prems" by auto
  from "2.IH" [OF this] show ?case by (simp only: flood.simps)
qed

lemma flood_closed:
  "\<forall>a \<in> set acc. \<forall>b \<in> set rest. \<not> adj a b \<Longrightarrow>
   \<forall>a \<in> set (fst (flood adj frontier rest acc)).
     \<forall>b \<in> set (snd (flood adj frontier rest acc)). \<not> adj a b"
proof (induction adj frontier rest acc rule: flood.induct)
  case (1 adj rest acc)
  then show ?case unfolding flood.simps fst_conv snd_conv .
next
  case (2 adj c frontier rest acc)
  have inv: "\<forall>a \<in> set (acc @ [c]). \<forall>b \<in> set (filter (\<lambda>d. \<not> adj c d) rest). \<not> adj a b"
  proof (intro ballI)
    fix a b
    assume a: "a \<in> set (acc @ [c])" and b: "b \<in> set (filter (\<lambda>d. \<not> adj c d) rest)"
    from b have b1: "b \<in> set rest" and b2: "\<not> adj c b" by simp_all
    from a have "a \<in> set acc \<or> a = c" by auto
    then show "\<not> adj a b"
    proof
      assume "a \<in> set acc"
      with b1 "2.prems" show ?thesis by blast
    next
      assume "a = c"
      with b2 show ?thesis by simp
    qed
  qed
  show ?case unfolding flood.simps by (rule "2.IH" [OF inv])
qed

lemma flood_reachable:
  "\<forall>a \<in> set acc \<union> set frontier. connected_in adj F s a \<Longrightarrow>
   set acc \<union> set frontier \<union> set rest \<subseteq> F \<Longrightarrow>
   \<forall>a \<in> set (fst (flood adj frontier rest acc)). connected_in adj F s a"
proof (induction adj frontier rest acc rule: flood.induct)
  case (1 adj rest acc)
  then show ?case by simp
next
  case (2 adj c frontier rest acc)
  have c: "connected_in adj F s c" and cF: "c \<in> F" using "2.prems" by auto
  have step: "connected_in adj F s d" if "d \<in> set rest" "adj c d" for d
  proof -
    have "d \<in> F" using that "2.prems"(2) by auto
    with cF that have "(\<lambda>a b. a \<in> F \<and> b \<in> F \<and> adj a b) c d" by simp
    with c show ?thesis unfolding connected_in_def by (rule rtranclp.rtrancl_into_rtrancl)
  qed
  have a: "\<forall>a \<in> set (acc @ [c]) \<union> set (frontier @ filter (adj c) rest). connected_in adj F s a"
    using "2.prems"(1) step by auto
  have b: "set (acc @ [c]) \<union> set (frontier @ filter (adj c) rest) \<union>
           set (filter (\<lambda>d. \<not> adj c d) rest) \<subseteq> F"
    using "2.prems"(2) by auto
  show ?case unfolding flood.simps by (rule "2.IH" [OF a b])
qed

lemma connected_in_mono:
  assumes "F \<subseteq> G" and "connected_in adj F a b"
  shows "connected_in adj G a b"
proof -
  have "(\<lambda>a b. a \<in> F \<and> b \<in> F \<and> adj a b) \<le> (\<lambda>a b. a \<in> G \<and> b \<in> G \<and> adj a b)"
    using assms(1) by auto
  from rtranclp_mono [OF this] assms(2) show ?thesis
    unfolding connected_in_def by auto
qed

lemma connected_in_sym:
  assumes "symp adj" and "connected_in adj F a b"
  shows "connected_in adj F b a"
proof -
  have "symp (\<lambda>a b. a \<in> F \<and> b \<in> F \<and> adj a b)"
    using assms(1) by (auto simp: symp_def)
  then have "symp (\<lambda>a b. a \<in> F \<and> b \<in> F \<and> adj a b)\<^sup>*\<^sup>*"
    by (rule symp_rtranclp)
  with assms(2) show ?thesis
    unfolding connected_in_def by (auto dest: sympD)
qed

lemma connected_in_trans:
  "connected_in adj F a b \<Longrightarrow> connected_in adj F b c \<Longrightarrow> connected_in adj F a c"
  unfolding connected_in_def by (rule rtranclp_trans)

lemma components_sets: "\<Union> (set ` set (components adj cells)) = set cells"
proof (induction adj cells rule: components.induct)
  case (1 adj)
  then show ?case by simp
next
  case (2 adj c rest)
  have "set (fst (flood adj [c] rest [])) \<union> set (snd (flood adj [c] rest [])) = insert c (set rest)"
    using flood_sets [of adj "[c]" rest "[]"] by simp
  with 2 show ?case by (simp del: flood.simps)
qed

lemma components_nonempty: "C \<in> set (components adj cells) \<Longrightarrow> C \<noteq> []"
proof (induction adj cells rule: components.induct)
  case (1 adj)
  then show ?case by simp
next
  case (2 adj c rest)
  have "c \<in> set (fst (flood adj [c] rest []))"
    using flood_acc_subset [of "[]" "[c]" adj rest] by simp
  then have "fst (flood adj [c] rest []) \<noteq> []" by auto
  with 2 show ?case by (auto simp del: flood.simps)
qed

lemma components_distinct:
  "distinct cells \<Longrightarrow> distinct (concat (components adj cells))"
proof (induction adj cells rule: components.induct)
  case (1 adj)
  then show ?case by simp
next
  case (2 adj c rest)
  let ?comp = "fst (flood adj [c] rest [])" and ?rest = "snd (flood adj [c] rest [])"
  have d: "distinct (?comp @ ?rest)"
    using flood_distinct [of "[]" "[c]" rest adj] "2.prems" by simp
  then have "distinct (concat (components adj ?rest))"
    using "2.IH" by simp
  moreover have "set (concat (components adj ?rest)) = set ?rest"
    using components_sets [of adj ?rest] by simp
  ultimately show ?case using d by (simp del: flood.simps)
qed

lemma components_closed:
  "symp adj \<Longrightarrow> C \<in> set (components adj cells) \<Longrightarrow> a \<in> set C \<Longrightarrow> b \<in> set cells \<Longrightarrow>
   adj a b \<Longrightarrow> b \<in> set C"
proof (induction adj cells rule: components.induct)
  case (1 adj)
  then show ?case by simp
next
  case (2 adj c rest)
  let ?comp = "fst (flood adj [c] rest [])" and ?rest = "snd (flood adj [c] rest [])"
  note sym = "2.prems"(1) and inC = "2.prems"(2) and a = "2.prems"(3)
    and b = "2.prems"(4) and ab = "2.prems"(5)
  have closed: "\<forall>a \<in> set ?comp. \<forall>b \<in> set ?rest. \<not> adj a b"
    by (rule flood_closed) simp
  have split: "set ?comp \<union> set ?rest = insert c (set rest)"
    using flood_sets [of adj "[c]" rest "[]"] by simp
  from b split have b': "b \<in> set ?comp \<or> b \<in> set ?rest" by auto
  from inC have "C = ?comp \<or> C \<in> set (components adj ?rest)"
    by (simp del: flood.simps)
  then show ?case
  proof
    assume C: "C = ?comp"
    with closed a ab b' show ?thesis by blast
  next
    assume C: "C \<in> set (components adj ?rest)"
    then have "a \<in> set ?rest" using components_sets [of adj ?rest] a by auto
    moreover have "adj b a" using sym ab by (auto dest: sympD)
    ultimately have "b \<in> set ?rest" using closed b' by blast
    from "2.IH" [OF sym C a this ab] show ?thesis .
  qed
qed

lemma components_connected:
  "symp adj \<Longrightarrow> C \<in> set (components adj cells) \<Longrightarrow> a \<in> set C \<Longrightarrow> b \<in> set C \<Longrightarrow>
   connected_in adj (set cells) a b"
proof (induction adj cells rule: components.induct)
  case (1 adj)
  then show ?case by simp
next
  case (2 adj c rest)
  let ?comp = "fst (flood adj [c] rest [])" and ?rest = "snd (flood adj [c] rest [])"
  note sym = "2.prems"(1) and inC = "2.prems"(2) and a = "2.prems"(3) and b = "2.prems"(4)
  from inC have "C = ?comp \<or> C \<in> set (components adj ?rest)"
    by (simp del: flood.simps)
  then show ?case
  proof
    assume C: "C = ?comp"
    have "\<forall>d \<in> set ?comp. connected_in adj (set (c # rest)) c d"
      by (rule flood_reachable) (auto simp: connected_in_def)
    with a b C have ca: "connected_in adj (set (c # rest)) c a"
      and cb: "connected_in adj (set (c # rest)) c b" by auto
    from ca have "connected_in adj (set (c # rest)) a c"
      by (rule connected_in_sym [OF sym])
    from connected_in_trans [OF this cb] show ?thesis .
  next
    assume C: "C \<in> set (components adj ?rest)"
    have "set ?rest \<subseteq> set rest"
      by (rule flood_rest_subset)
    then have "set ?rest \<subseteq> set (c # rest)"
      by (auto simp del: flood.simps)
    from connected_in_mono [OF this "2.IH" [OF sym C a b]] show ?thesis .
  qed
qed

lemma components_same_iff_connected:
  assumes "symp adj" and "a \<in> set cells" and "b \<in> set cells"
  shows "(\<exists>C \<in> set (components adj cells). a \<in> set C \<and> b \<in> set C) =
         connected_in adj (set cells) a b"
proof
  assume "\<exists>C \<in> set (components adj cells). a \<in> set C \<and> b \<in> set C"
  then show "connected_in adj (set cells) a b"
    using components_connected [OF assms(1)] by blast
next
  assume conn: "connected_in adj (set cells) a b"
  from assms(2) obtain C where C: "C \<in> set (components adj cells)" and a: "a \<in> set C"
    using components_sets [of adj cells] by blast
  from conn have "a \<in> set C \<longrightarrow> b \<in> set C"
    unfolding connected_in_def
  proof (induction rule: rtranclp_induct)
    case base
    then show ?case by simp
  next
    case (step y z)
    then show ?case using components_closed [OF assms(1) C] by blast
  qed
  with C a show "\<exists>C \<in> set (components adj cells). a \<in> set C \<and> b \<in> set C" by blast
qed

subsection \<open>Ranges, bounding boxes and regions\<close>

lemma clamp_bounds: "lo \<le> hi \<Longrightarrow> lo \<le> clamp lo hi v \<and> clamp lo hi v \<le> hi"
  by (simp add: clamp_def)

lemma normalized_difference_bounds:
  "0 \<le> normalized_difference a b \<and> normalized_difference a b \<le> 1"
proof (cases "a = b")
  case True
  then show ?thesis by (simp add: normalized_difference_def)
next
  case False
  then have pos: "0 < \<bar>a\<bar> + \<bar>b\<bar>" by auto
  have "\<bar>a - b\<bar> \<le> \<bar>a\<bar> + \<bar>b\<bar>" by simp
  with pos False show ?thesis by (simp add: normalized_difference_def)
qed

lemma fused_severity_bounds:
  assumes "0 \<le> weight_color cfg" and "0 \<le> weight_coverage cfg" and "0 \<le> weight_texture cfg"
    and "weight_color cfg + weight_coverage cfg + weight_texture cfg \<le> 1"
    and "0 \<le> cm_texture_normalized m" and "cm_texture_normalized m \<le> 1"
  shows "0 \<le> fused_severity cfg m \<and> fused_severity cfg m \<le> 1"
proof -
  let ?c = "clamp 0 1 (cm_color_distance m / color_scale cfg)"
  let ?v = "clamp 0 1 (\<bar>cm_intensity_delta m\<bar> / intensity_scale cfg)"
  let ?t = "cm_texture_normalized m"
  have c: "0 \<le> ?c" "?c \<le> 1" and v: "0 \<le> ?v" "?v \<le> 1"
    using clamp_bounds [of 0 1] by simp_all
  note w = assms(1-4)
  have lo: "0 \<le> weight_color cfg * ?c + weight_coverage cfg * ?v + weight_texture cfg * ?t"
    using w c v assms(5) by (intro add_nonneg_nonneg mult_nonneg_nonneg)
  have "weight_color cfg * ?c \<le> weight_color cfg * 1"
    and "weight_coverage cfg * ?v \<le> weight_coverage cfg * 1"
    and "weight_texture cfg * ?t \<le> weight_texture cfg * 1"
    using w c v assms(6) by (simp_all add: mult_left_le)
  then have "weight_color cfg * ?c + weight_coverage cfg * ?v + weight_texture cfg * ?t
             \<le> weight_color cfg + weight_coverage cfg + weight_texture cfg"
    by simp
  with w(4) lo show ?thesis
    by (simp add: fused_severity_def color_share_def coverage_share_def texture_share_def)
qed

lemma fold_max_bounds:
  fixes v :: real
  shows "lo \<le> v \<Longrightarrow> v \<le> hi \<Longrightarrow> \<forall>u \<in> set vs. lo \<le> u \<and> u \<le> hi \<Longrightarrow>
         lo \<le> fold max vs v \<and> fold max vs v \<le> hi"
  by (induction vs arbitrary: v) auto

lemma maximum_bounds:
  "vs \<noteq> [] \<Longrightarrow> \<forall>u \<in> set vs. lo \<le> u \<and> u \<le> hi \<Longrightarrow>
   lo \<le> maximum vs \<and> maximum vs \<le> hi"
  by (cases vs) (auto intro: fold_max_bounds [THEN conjunct1] fold_max_bounds [THEN conjunct2])

lemma confidence_bounds:
  "0 \<le> real (length (filter P ms)) / real (length ms) \<and>
   real (length (filter P ms)) / real (length ms) \<le> 1"
proof (cases "ms = []")
  case True
  then show ?thesis by simp
next
  case False
  have "length (filter P ms) \<le> length ms" by simp
  with False show ?thesis by (simp add: divide_le_eq)
qed

lemma classify_closed:
  "classify cfg ms \<in>
     {''uneven_coverage'', ''color_inconsistency'', ''over_application'', ''texture_variation''}"
  by (cases "region_axis cfg ms") (simp_all add: classify_def)

lemma rect_union_within: "rect_within W H A \<Longrightarrow> rect_within W H B \<Longrightarrow> rect_within W H (rect_union A B)"
  by (auto simp: rect_within_def rect_union_def)

lemma fold_rect_union_within:
  "rect_within W H R \<Longrightarrow> \<forall>A \<in> set Rs. rect_within W H A \<Longrightarrow> rect_within W H (fold rect_union Rs R)"
  by (induction Rs arbitrary: R) (simp_all add: rect_union_within)

lemma bounding_box_within:
  "Rs \<noteq> [] \<Longrightarrow> \<forall>A \<in> set Rs. rect_within W H A \<Longrightarrow> rect_within W H (bounding_box Rs)"
  by (cases Rs) (simp_all add: fold_rect_union_within)

lemma rect_subset_refl: "rect_subset A A"
  by (simp add: rect_subset_def)

lemma rect_subset_trans: "rect_subset A B \<Longrightarrow> rect_subset B C \<Longrightarrow> rect_subset A C"
  by (auto simp: rect_subset_def)

lemma rect_union_upper: "rect_subset A (rect_union A B)" "rect_subset B (rect_union A B)"
  by (auto simp: rect_subset_def rect_union_def)

lemma rect_union_least:
  "rect_subset A C \<Longrightarrow> rect_subset B C \<Longrightarrow> rect_subset (rect_union A B) C"
  by (auto simp: rect_subset_def rect_union_def)

lemma fold_rect_union_upper:
  "rect_subset R (fold rect_union Rs R) \<and> (\<forall>A \<in> set Rs. rect_subset A (fold rect_union Rs R))"
proof (induction Rs arbitrary: R)
  case Nil
  then show ?case by (simp add: rect_subset_refl)
next
  case (Cons B Rs)
  have a: "rect_subset (rect_union B R) (fold rect_union Rs (rect_union B R))"
    and b: "\<forall>A \<in> set Rs. rect_subset A (fold rect_union Rs (rect_union B R))"
    using Cons.IH [of "rect_union B R"] by simp_all
  have "rect_subset R (fold rect_union Rs (rect_union B R))"
    and "rect_subset B (fold rect_union Rs (rect_union B R))"
    using rect_union_upper [of B R] rect_union_upper(2) [of R B] a
    by (blast intro: rect_subset_trans)+
  with b show ?case by simp
qed

lemma fold_rect_union_least:
  "rect_subset R C \<Longrightarrow> \<forall>A \<in> set Rs. rect_subset A C \<Longrightarrow> rect_subset (fold rect_union Rs R) C"
  by (induction Rs arbitrary: R) (simp_all add: rect_union_least)

lemma bounding_box_upper: "A \<in> set Rs \<Longrightarrow> rect_subset A (bounding_box Rs)"
  using fold_rect_union_upper by (cases Rs) auto

lemma bounding_box_least:
  "Rs \<noteq> [] \<Longrightarrow> \<forall>A \<in> set Rs. rect_subset A C \<Longrightarrow> rect_subset (bounding_box Rs) C"
  by (cases Rs) (simp_all add: fold_rect_union_least)

lemma region_rect_mk_region: "region_rect (mk_region cfg ms) = bounding_box (map cm_rect ms)"
  by (simp add: region_rect_def mk_region_def Let_def)

lemma symp_cell_adjacent: "symp cell_adjacent"
  by (auto simp: symp_def cell_adjacent_def adjacent_def)

lemma region_members_sets:
  "\<Union> (set ` set (region_members cfg ms)) = {m \<in> set ms. is_flagged cfg m}"
  by (simp add: region_members_def components_sets)

lemma region_members_nonempty: "C \<in> set (region_members cfg ms) \<Longrightarrow> C \<noteq> []"
  unfolding region_members_def by (rule components_nonempty)

lemma region_members_subset:
  "C \<in> set (region_members cfg ms) \<Longrightarrow> m \<in> set C \<Longrightarrow> m \<in> set ms \<and> is_flagged cfg m"
  using region_members_sets [of cfg ms] by blast

lemma cell_metrics_distinct: "distinct (cell_metrics M cfg before after)"
proof -
  let ?cells = "grid_cells (partition_grid (img_width before) (img_height before) (cellSize cfg))"
  have "distinct (map fst ?cells)"
    by (simp only: grid_cells_keys distinct_pairs_upt)
  then have "distinct (map cm_cell (cell_metrics M cfg before after))"
    by (simp add: cell_metrics_def measure_cell_def comp_def)
  then show ?thesis by (rule distinct_map [THEN iffD1, THEN conjunct1])
qed

lemma cell_metrics_props:
  assumes "0 < cellSize cfg" and "m \<in> set (cell_metrics M cfg before after)"
  shows "rect_within (img_width before) (img_height before) (cm_rect m)"
    and "0 \<le> cm_texture_normalized m" and "cm_texture_normalized m \<le> 1"
proof -
  let ?W = "img_width before" and ?H = "img_height before" and ?cs = "cellSize cfg"
  from assms(2) obtain cr where cr: "cr \<in> set (grid_cells (partition_grid ?W ?H ?cs))"
    and m: "m = measure_cell M before after cr"
    by (auto simp: cell_metrics_def)
  from cr obtain r c where r: "r < ceil_div ?H ?cs" and c: "c < ceil_div ?W ?cs"
    and R: "snd cr = cell_rect ?W ?H ?cs (r, c)"
    by (auto simp: grid_cells_set)
  show "rect_within ?W ?H (cm_rect m)"
    using cell_rect_clip(2) [OF assms(1) c] cell_rect_clip(2) [OF assms(1) r]
    by (simp add: m measure_cell_def R rect_within_def cell_rect_def)
  show "0 \<le> cm_texture_normalized m" "cm_texture_normalized m \<le> 1"
    using normalized_difference_bounds by (simp_all add: m measure_cell_def)
qed

lemma region_issue_type_closed:
  "region_issue_type (mk_region cfg C) \<in>
     {''uneven_coverage'', ''color_inconsistency'', ''over_application'', ''texture_variation''}"
  using classify_closed [of cfg C] by (simp add: mk_region_def Let_def)

lemma region_confidence_range:
  "0 \<le> region_confidence (mk_region cfg C) \<and> region_confidence (mk_region cfg C) \<le> 1"
  using confidence_bounds [of "\<lambda>m. driving_axis cfg m = region_axis cfg C" C]
  by (simp add: mk_region_def Let_def)

lemma region_inside_image:
  assumes cs: "0 < cellSize cfg"
    and C: "C \<in> set (region_members cfg (cell_metrics M cfg before after))"
  shows "region_x (mk_region cfg C) + region_width (mk_region cfg C) \<le> img_width before \<and>
         region_y (mk_region cfg C) + region_height (mk_region cfg C) \<le> img_height before"
proof -
  have ne: "C \<noteq> []" using C by (rule region_members_nonempty)
  have mem: "m \<in> set (cell_metrics M cfg before after)" if "m \<in> set C" for m
    using region_members_subset [OF C that] by simp
  have "\<forall>A \<in> set (map cm_rect C). rect_within (img_width before) (img_height before) A"
    using cell_metrics_props(1) [OF cs mem] by auto
  with ne have "rect_within (img_width before) (img_height before) (bounding_box (map cm_rect C))"
    using bounding_box_within [of "map cm_rect C"] by simp
  then show ?thesis
    by (simp add: mk_region_def Let_def rect_within_def)
qed

lemma region_severity_range:
  assumes "0 \<le> weight_color cfg" and "0 \<le> weight_coverage cfg" and "0 \<le> weight_texture cfg"
    and "weight_color cfg + weight_coverage cfg + weight_texture cfg \<le> 1"
    and cs: "0 < cellSize cfg"
    and C: "C \<in> set (region_members cfg (cell_metrics M cfg before after))"
  shows "0 \<le> region_severity (mk_region cfg C) \<and> region_severity (mk_region cfg C) \<le> 1"
proof -
  have ne: "C \<noteq> []" using C by (rule region_members_nonempty)
  have mem: "m \<in> set (cell_metrics M cfg before after)" if "m \<in> set C" for m
    using region_members_subset [OF C that] by simp
  have "\<forall>u \<in> set (map (fused_severity cfg) C). 0 \<le> u \<and> u \<le> 1"
    using fused_severity_bounds [OF assms(1-4)] cell_metrics_props(2,3) [OF cs mem] by auto
  with ne show ?thesis
    using maximum_bounds [of "map (fused_severity cfg) C" 0 1]
    by (simp add: mk_region_def Let_def)
qed

lemma analyze_Inr:
  assumes "analyze M cfg before after = Inr res"
  shows "res = run_pipeline M cfg before (normalize_after M before after)"
  using assms by (simp add: analyze_def split: if_splits)

lemma problem_regions_run:
  "problem_regions (run_pipeline M cfg before after) =
     map (mk_region cfg) (region_members cfg (cell_metrics M cfg before after))"
  by (simp add: run_pipeline_def Let_def detect_regions_def)

lemma measure_cell_same:
  "cm_color_distance (measure_cell M img img cr) = 0"
  "cm_intensity_delta (measure_cell M img img cr) = 0"
  "cm_texture_difference (measure_cell M img img cr) = 0"
  "cm_texture_normalized (measure_cell M img img cr) = 0"
  by (simp_all add: measure_cell_def euclid_def normalized_difference_def)

lemma fused_severity_same: "fused_severity cfg (measure_cell M img img cr) = 0"
  by (simp add: fused_severity_def color_share_def coverage_share_def texture_share_def
      measure_cell_same clamp_def)

lemma percentage_none: "\<forall>x \<in> set xs. \<not> P x \<Longrightarrow> percentage P xs = 0"
  by (simp add: percentage_def filter_False)

lemma percentage_all: "xs \<noteq> [] \<Longrightarrow> \<forall>x \<in> set xs. P x \<Longrightarrow> percentage P xs = 100"
  by (simp add: percentage_def filter_True)

lemma mean_zero: "\<forall>v \<in> set vs. v = 0 \<Longrightarrow> mean vs = 0"
proof -
  assume "\<forall>v \<in> set vs. v = 0"
  then have "sum_list vs = 0" by (induction vs) simp_all
  then show ?thesis by (simp add: mean_def)
qed

subsection \<open>The concrete analysis, evaluated\<close>

lemma sqrt_6400: "sqrt 6400 = 80"
  by (rule real_sqrt_unique) simp_all

lemma upt_4: "[0..<4] = [0, 1, 2, 3]"
  by (simp add: upt_rec)

lemma example_grid:
  "grid_cells (partition_grid 7 2 2) =
     [((0, 0), \<lparr>rect_x = 0, rect_y = 0, rect_w = 2, rect_h = 2\<rparr>),
      ((0, 1), \<lparr>rect_x = 2, rect_y = 0, rect_w = 2, rect_h = 2\<rparr>),
      ((0, 2), \<lparr>rect_x = 4, rect_y = 0, rect_w = 2, rect_h = 2\<rparr>),
      ((0, 3), \<lparr>rect_x = 6, rect_y = 0, rect_w = 1, rect_h = 2\<rparr>)]"
  by (simp add: partition_grid_def ceil_div_code cell_rect_def upt_4)

lemma example_config_fields:
  "cellSize example_config = 2" "color_threshold example_config = 10"
  "low_threshold example_config = 10" "high_threshold example_config = 60"
  "color_scale example_config = 100" "intensity_scale example_config = 100"
  "weight_color example_config = 1 / 2" "weight_coverage example_config = 1 / 4"
  "weight_texture example_config = 1 / 4" "detection_threshold example_config = 1 / 5"
  "penalty_change example_config = 1 / 2" "penalty_coverage example_config = 1 / 4"
  "penalty_texture example_config = 20" "min_width example_config = 2"
  "min_height example_config = 2"
  by (simp_all add: example_config_def)

lemmas example_cells =
  example_cell_a_def example_cell_b_def example_cell_c_def example_cell_d_def

lemmas detector_defs =
  is_flagged_def fused_severity_def color_share_def coverage_share_def texture_share_def
  clamp_def cell_adjacent_def adjacent_def mk_region_def Let_def rect_union_def classify_def
  region_axis_def dominant_def driving_axis_def mean_def

lemma example_metrics:
  "cell_metrics example_measures example_config example_before example_after =
     [example_cell_a, example_cell_b, example_cell_c, example_cell_d]"
  by (simp add: cell_metrics_def example_grid example_config_fields example_cells
      example_before_def example_after_def example_measures_def measure_cell_def pixel_at_def
      euclid_def normalized_difference_def sqrt_6400)

lemma example_flagged:
  "is_flagged example_config example_cell_a" "is_flagged example_config example_cell_b"
  "\<not> is_flagged example_config example_cell_c" "is_flagged example_config example_cell_d"
  by (simp_all add: example_cells example_config_fields detector_defs)

lemma example_members:
  "region_members example_config
     (cell_metrics example_measures example_config example_before example_after) =
   [example_cell_a, example_cell_b] # [example_cell_d] # []"
  by (simp add: example_metrics region_members_def example_flagged)
     (simp add: example_cells cell_adjacent_def adjacent_def)

lemma example_regions:
  "problem_regions (run_pipeline example_measures example_config example_before example_after) =
     [example_region_ab, example_region_d]"
  by (simp add: problem_regions_run example_members)
     (simp add: example_cells example_config_fields detector_defs
        example_region_ab_def example_region_d_def)

lemma example_analyze:
  "analyze example_measures example_config example_before example_after =
     Inr (run_pipeline example_measures example_config example_before example_after)"
  by (simp add: analyze_def normalize_after_def example_config_fields
      example_before_def example_after_def)

lemma example_analyze_same:
  "analyze example_measures (example_config\<lparr>low_threshold := t\<rparr>) example_before example_before =
     Inr (run_pipeline example_measures (example_config\<lparr>low_threshold := t\<rparr>)
            example_before example_before)"
  by (simp add: analyze_def normalize_after_def example_config_def example_before_def)

subsection \<open>The properties of the engine\<close>

text \<open>
  C4. Grid tiling: for a positive cell size the partitioner yields \<open>ceil(height/cellSize)\<close>
  rows and \<open>ceil(width/cellSize)\<close> columns of cells; the cells are pairwise different, their
  rectangles cover exactly the pixels of the image, no two of them share a pixel, none is
  empty, and every cell has the full cell size except those of the last column and row,
  which end at the image bounds.
\<close>

theorem grid_tiling:
  assumes cs: "0 < cs"
  shows "grid_rows (partition_grid W H cs) = nat \<lceil>real H / real cs\<rceil> \<and>
         grid_cols (partition_grid W H cs) = nat \<lceil>real W / real cs\<rceil> \<and>
         length (grid_cells (partition_grid W H cs)) =
           grid_rows (partition_grid W H cs) * grid_cols (partition_grid W H cs) \<and>
         distinct (map fst (grid_cells (partition_grid W H cs))) \<and>
         (\<Union>cell \<in> set (grid_cells (partition_grid W H cs)). pixels_of (snd cell)) =
           {p. fst p < W \<and> snd p < H} \<and>
         (\<forall>a \<in> set (grid_cells (partition_grid W H cs)).
          \<forall>b \<in> set (grid_cells (partition_grid W H cs)).
            a \<noteq> b \<longrightarrow> pixels_of (snd a) \<inter> pixels_of (snd b) = {}) \<and>
         (\<forall>cell \<in> set (grid_cells (partition_grid W H cs)).
            fst (fst cell) < grid_rows (partition_grid W H cs) \<and>
            snd (fst cell) < grid_cols (partition_grid W H cs) \<and>
            rect_x (snd cell) = snd (fst cell) * cs \<and>
            rect_y (snd cell) = fst (fst cell) * cs \<and>
            0 < rect_w (snd cell) \<and> 0 < rect_h (snd cell) \<and>
            (if Suc (snd (fst cell)) < grid_cols (partition_grid W H cs)
             then rect_w (snd cell) = cs
             else rect_x (snd cell) + rect_w (snd cell) = W) \<and>
            (if Suc (fst (fst cell)) < grid_rows (partition_grid W H cs)
             then rect_h (snd cell) = cs
             else rect_y (snd cell) + rect_h (snd cell) = H))"
proof -
  let ?g = "partition_grid W H cs"
  have rows: "grid_rows ?g = ceil_div H cs" and cols: "grid_cols ?g = ceil_div W cs"
    by (simp_all add: partition_grid_def Let_def)
  have p1: "grid_rows ?g = nat \<lceil>real H / real cs\<rceil>"
    and p2: "grid_cols ?g = nat \<lceil>real W / real cs\<rceil>"
    by (simp_all add: rows cols ceil_div_def)
  have p3: "length (grid_cells ?g) = grid_rows ?g * grid_cols ?g"
    by (simp add: rows cols partition_grid_def Let_def length_pairs_upt)
  have p4: "distinct (map fst (grid_cells ?g))"
    by (simp only: grid_cells_keys distinct_pairs_upt)
  have p5: "(\<Union>cell \<in> set (grid_cells ?g). pixels_of (snd cell)) = {p. fst p < W \<and> snd p < H}"
  proof (rule set_eqI)
    fix p :: "nat \<times> nat"
    obtain px py where p: "p = (px, py)" by (cases p)
    show "(p \<in> (\<Union>cell \<in> set (grid_cells ?g). pixels_of (snd cell))) =
          (p \<in> {p. fst p < W \<and> snd p < H})"
      using div_less_ceil_div [OF cs, of px W] div_less_ceil_div [OF cs, of py H]
      by (auto simp: p grid_cells_set pixels_of_def in_cell_rect_iff [OF cs])
  qed
  have p6: "\<forall>a \<in> set (grid_cells ?g). \<forall>b \<in> set (grid_cells ?g).
          a \<noteq> b \<longrightarrow> pixels_of (snd a) \<inter> pixels_of (snd b) = {}"
    by (auto simp: grid_cells_set pixels_of_def in_cell_rect_iff [OF cs])
  have p7: "\<forall>cell \<in> set (grid_cells ?g).
           fst (fst cell) < grid_rows ?g \<and>
           snd (fst cell) < grid_cols ?g \<and>
           rect_x (snd cell) = snd (fst cell) * cs \<and>
           rect_y (snd cell) = fst (fst cell) * cs \<and>
           0 < rect_w (snd cell) \<and> 0 < rect_h (snd cell) \<and>
           (if Suc (snd (fst cell)) < grid_cols ?g
            then rect_w (snd cell) = cs
            else rect_x (snd cell) + rect_w (snd cell) = W) \<and>
           (if Suc (fst (fst cell)) < grid_rows ?g
            then rect_h (snd cell) = cs
            else rect_y (snd cell) + rect_h (snd cell) = H)"
  proof
    fix cell assume "cell \<in> set (grid_cells ?g)"
    then obtain r c where cell: "cell = ((r, c), cell_rect W H cs (r, c))"
      and r: "r < ceil_div H cs" and c: "c < ceil_div W cs"
      by (auto simp: grid_cells_set)
    have lastc: "Suc c = ceil_div W cs" if "\<not> Suc c < ceil_div W cs"
      using that c by simp
    have lastr: "Suc r = ceil_div H cs" if "\<not> Suc r < ceil_div H cs"
      using that r by simp
    show "fst (fst cell) < grid_rows ?g \<and>
           snd (fst cell) < grid_cols ?g \<and>
           rect_x (snd cell) = snd (fst cell) * cs \<and>
           rect_y (snd cell) = fst (fst cell) * cs \<and>
           0 < rect_w (snd cell) \<and> 0 < rect_h (snd cell) \<and>
           (if Suc (snd (fst cell)) < grid_cols ?g
            then rect_w (snd cell) = cs
            else rect_x (snd cell) + rect_w (snd cell) = W) \<and>
           (if Suc (fst (fst cell)) < grid_rows ?g
            then rect_h (snd cell) = cs
            else rect_y (snd cell) + rect_h (snd cell) = H)"
      using cell_rect_clip [OF cs c] cell_rect_clip [OF cs r] r c lastc lastr
      by (simp add: cell rows cols cell_rect_def)
  qed
  show ?thesis by (intro conjI p1 p2 p3 p4 p5 p6 p7)
qed

theorem grid_tiling_witness:
  "(0::nat) < 2 \<and>
   grid_rows (partition_grid 7 2 2) = 1 \<and> grid_cols (partition_grid 7 2 2) = 4 \<and>
   length (grid_cells (partition_grid 7 2 2)) = 4 \<and>
   ((0, 0), \<lparr>rect_x = 0, rect_y = 0, rect_w = 2, rect_h = 2\<rparr>)
     \<in> set (grid_cells (partition_grid 7 2 2)) \<and>
   ((0, 3), \<lparr>rect_x = 6, rect_y = 0, rect_w = 1, rect_h = 2\<rparr>)
     \<in> set (grid_cells (partition_grid 7 2 2)) \<and>
   pixels_of \<lparr>rect_x = 0, rect_y = 0, rect_w = 2, rect_h = 2\<rparr> \<inter>
     pixels_of \<lparr>rect_x = 6, rect_y = 0, rect_w = 1, rect_h = 2\<rparr> = {} \<and>
   rect_x \<lparr>rect_x = 6, rect_y = 0, rect_w = 1, rect_h = 2\<rparr> +
     rect_w \<lparr>rect_x = 6, rect_y = 0, rect_w = 1, rect_h = 2\<rparr> = 7 \<and>
   (\<Union>cell \<in> set (grid_cells (partition_grid 7 2 2)). pixels_of (snd cell)) =
     {p. fst p < 7 \<and> snd p < 2}"
proof -
  let ?a = "((0 :: nat, 0 :: nat), \<lparr>rect_x = 0, rect_y = 0, rect_w = 2, rect_h = 2\<rparr>)"
  let ?d = "((0 :: nat, 3 :: nat), \<lparr>rect_x = 6, rect_y = 0, rect_w = 1, rect_h = 2\<rparr>)"
  have cs: "(0::nat) < 2" by simp
  note t = grid_tiling [OF cs, of 7 2]
  have a: "?a \<in> set (grid_cells (partition_grid 7 2 2))"
    and d: "?d \<in> set (grid_cells (partition_grid 7 2 2))"
    by (simp_all add: example_grid)
  from t have rows: "grid_rows (partition_grid 7 2 2) = 1" by simp
  from t have cols: "grid_cols (partition_grid 7 2 2) = 4" by simp
  from t rows cols have len: "length (grid_cells (partition_grid 7 2 2)) = 4" by simp
  note t5 = t [THEN conjunct2, THEN conjunct2, THEN conjunct2, THEN conjunct2]
  have ne: "?a \<noteq> ?d" by simp
  have disj: "pixels_of (snd ?a) \<inter> pixels_of (snd ?d) = {}"
    by (rule t5 [THEN conjunct2, THEN conjunct1, rule_format, OF a d ne])
  have cover: "(\<Union>cell \<in> set (grid_cells (partition_grid 7 2 2)). pixels_of (snd cell)) =
     {p. fst p < 7 \<and> snd p < 2}"
    by (rule t5 [THEN conjunct1])
  note last = t5 [THEN conjunct2, THEN conjunct2, rule_format, OF d]
  from last cols have edge: "rect_x \<lparr>rect_x = 6, rect_y = 0, rect_w = 1, rect_h = 2\<rparr> +
     rect_w \<lparr>rect_x = 6, rect_y = 0, rect_w = 1, rect_h = 2\<rparr> = (7 :: nat)"
    by simp
  from disj have disj': "pixels_of \<lparr>rect_x = 0, rect_y = 0, rect_w = 2, rect_h = 2\<rparr> \<inter>
     pixels_of \<lparr>rect_x = 6, rect_y = 0, rect_w = 1, rect_h = 2\<rparr> = {}"
    by (simp only: snd_conv)
  show ?thesis by (intro conjI cs rows cols len a d disj' edge cover)
qed

text \<open>
  C6. Region merge: for every set of cells (a list without repetition), two flagged cells
  that share an edge are in one region; two flagged cells are in one region exactly when a
  path of shared edges through flagged cells joins them, so cells without such a path are
  never merged; every flagged cell is in exactly one region; and the rectangle of a region
  is the union of the rectangles of its member cells, that is, the least rectangle that
  contains them all.
\<close>

theorem region_merge_correctness:
  assumes "distinct ms"
    and "m \<in> set ms" and "is_flagged cfg m"
    and "n \<in> set ms" and "is_flagged cfg n"
  shows "(cell_adjacent m n \<longrightarrow>
            (\<exists>C \<in> set (region_members cfg ms). m \<in> set C \<and> n \<in> set C)) \<and>
         ((\<exists>C \<in> set (region_members cfg ms). m \<in> set C \<and> n \<in> set C) =
          connected_in cell_adjacent {k \<in> set ms. is_flagged cfg k} m n) \<and>
         (\<exists>!C. C \<in> set (region_members cfg ms) \<and> m \<in> set C) \<and>
         (\<forall>C \<in> set (region_members cfg ms).
            (\<forall>k \<in> set C. rect_subset (cm_rect k) (region_rect (mk_region cfg C))) \<and>
            (\<forall>B. (\<forall>k \<in> set C. rect_subset (cm_rect k) B) \<longrightarrow>
                  rect_subset (region_rect (mk_region cfg C)) B))"
proof -
  let ?F = "filter (is_flagged cfg) ms"
  have F: "set ?F = {k \<in> set ms. is_flagged cfg k}" by simp
  have m: "m \<in> set ?F" and n: "n \<in> set ?F" using assms by simp_all
  have iff: "(\<exists>C \<in> set (region_members cfg ms). m \<in> set C \<and> n \<in> set C) =
             connected_in cell_adjacent {k \<in> set ms. is_flagged cfg k} m n"
    using components_same_iff_connected [OF symp_cell_adjacent m n]
    by (simp only: region_members_def F)
  have adj: "\<exists>C \<in> set (region_members cfg ms). m \<in> set C \<and> n \<in> set C" if "cell_adjacent m n"
  proof -
    have "(\<lambda>a b. a \<in> set ?F \<and> b \<in> set ?F \<and> cell_adjacent a b) m n"
      using m n that by simp
    then have "connected_in cell_adjacent (set ?F) m n"
      unfolding connected_in_def by (rule r_into_rtranclp)
    then show ?thesis using iff by (simp only: F)
  qed
  have d: "distinct (concat (region_members cfg ms))"
    unfolding region_members_def
    by (rule components_distinct) (simp add: assms(1))
  have uniq: "\<exists>!C. C \<in> set (region_members cfg ms) \<and> m \<in> set C"
  proof (rule ex_ex1I)
    show "\<exists>C. C \<in> set (region_members cfg ms) \<and> m \<in> set C"
      using region_members_sets [of cfg ms] assms(2,3) by blast
  next
    fix C D
    assume "C \<in> set (region_members cfg ms) \<and> m \<in> set C"
      and "D \<in> set (region_members cfg ms) \<and> m \<in> set D"
    with d show "C = D" by (auto simp: distinct_concat_iff)
  qed
  have box: "\<forall>C \<in> set (region_members cfg ms).
            (\<forall>k \<in> set C. rect_subset (cm_rect k) (region_rect (mk_region cfg C))) \<and>
            (\<forall>B. (\<forall>k \<in> set C. rect_subset (cm_rect k) B) \<longrightarrow>
                  rect_subset (region_rect (mk_region cfg C)) B)"
  proof
    fix C assume C: "C \<in> set (region_members cfg ms)"
    then have ne: "map cm_rect C \<noteq> []" using region_members_nonempty by auto
    show "(\<forall>k \<in> set C. rect_subset (cm_rect k) (region_rect (mk_region cfg C))) \<and>
            (\<forall>B. (\<forall>k \<in> set C. rect_subset (cm_rect k) B) \<longrightarrow>
                  rect_subset (region_rect (mk_region cfg C)) B)"
      using bounding_box_upper [of _ "map cm_rect C"] bounding_box_least [OF ne]
      by (simp add: region_rect_mk_region)
  qed
  from adj iff uniq box show ?thesis by blast
qed

theorem region_merge_correctness_witness:
  "distinct (cell_metrics example_measures example_config example_before example_after) \<and>
   example_cell_a \<in> set (cell_metrics example_measures example_config example_before example_after) \<and>
   example_cell_b \<in> set (cell_metrics example_measures example_config example_before example_after) \<and>
   example_cell_d \<in> set (cell_metrics example_measures example_config example_before example_after) \<and>
   is_flagged example_config example_cell_a \<and> is_flagged example_config example_cell_b \<and>
   is_flagged example_config example_cell_d \<and>
   cell_adjacent example_cell_a example_cell_b \<and>
   region_members example_config
     (cell_metrics example_measures example_config example_before example_after) =
     [example_cell_a, example_cell_b] # [example_cell_d] # [] \<and>
   connected_in cell_adjacent
     {k \<in> set (cell_metrics example_measures example_config example_before example_after).
        is_flagged example_config k} example_cell_a example_cell_b \<and>
   \<not> connected_in cell_adjacent
     {k \<in> set (cell_metrics example_measures example_config example_before example_after).
        is_flagged example_config k} example_cell_a example_cell_d \<and>
   rect_subset (cm_rect example_cell_b)
     (region_rect (mk_region example_config [example_cell_a, example_cell_b])) \<and>
   region_rect (mk_region example_config [example_cell_a, example_cell_b]) =
     \<lparr>rect_x = 0, rect_y = 0, rect_w = 4, rect_h = 2\<rparr>"
proof -
  let ?ms = "cell_metrics example_measures example_config example_before example_after"
  let ?F = "{k \<in> set ?ms. is_flagged example_config k}"
  have a: "example_cell_a \<in> set ?ms" and b: "example_cell_b \<in> set ?ms"
    and d: "example_cell_d \<in> set ?ms"
    by (simp_all add: example_metrics)
  note fa = example_flagged(1) and fb = example_flagged(2) and fd = example_flagged(4)
  have adj: "cell_adjacent example_cell_a example_cell_b"
    by (simp add: cell_adjacent_def adjacent_def example_cells)
  note ab = region_merge_correctness [OF cell_metrics_distinct a fa b fb]
  note ad = region_merge_correctness [OF cell_metrics_distinct a fa d fd]
  have same: "\<exists>C \<in> set (region_members example_config ?ms).
                example_cell_a \<in> set C \<and> example_cell_b \<in> set C"
    using ab adj by blast
  with ab have conn: "connected_in cell_adjacent ?F example_cell_a example_cell_b"
    by blast
  have "\<not> (\<exists>C \<in> set (region_members example_config ?ms).
              example_cell_a \<in> set C \<and> example_cell_d \<in> set C)"
    by (simp add: example_members) (simp add: example_cells)
  with ad have nconn: "\<not> connected_in cell_adjacent ?F example_cell_a example_cell_d"
    by blast
  have "[example_cell_a, example_cell_b] \<in> set (region_members example_config ?ms)"
    by (simp add: example_members)
  with ab have box: "rect_subset (cm_rect example_cell_b)
     (region_rect (mk_region example_config [example_cell_a, example_cell_b]))"
    by auto
  have rect: "region_rect (mk_region example_config [example_cell_a, example_cell_b]) =
     \<lparr>rect_x = 0, rect_y = 0, rect_w = 4, rect_h = 2\<rparr>"
    by (simp add: region_rect_mk_region rect_union_def example_cells)
  have members: "region_members example_config ?ms =
     [example_cell_a, example_cell_b] # [example_cell_d] # []"
    by (rule example_members)
  show ?thesis
    by (intro conjI cell_metrics_distinct a b d fa fb fd adj members conn nconn box rect)
qed

subsection \<open>The ranges of a result\<close>

text \<open>
  What the model fixes about a result without any condition on the configuration: the
  score is the clamped penalty formula, so it lies in [0,100]; every region carries one of
  the four issue types and a confidence in [0,1]; and, for a positive cell size, its
  rectangle lies inside the image.
\<close>

lemma result_score_range:
  assumes "analyze M cfg before after = Inr res"
  shows "0 \<le> overall_score res \<and> overall_score res \<le> 100 \<and>
         overall_score res =
           clamp 0 100
             (100 - penalty_change cfg * change_percentage (color_analysis res)
                  - penalty_coverage cfg * poor_coverage_percentage (coverage_analysis res)
                  - penalty_texture cfg * (1 - texture_consistency_score (texture_analysis res)))"
proof -
  have res: "res = run_pipeline M cfg before (normalize_after M before after)"
    using assms by (rule analyze_Inr)
  have score: "overall_score res =
           clamp 0 100
             (100 - penalty_change cfg * change_percentage (color_analysis res)
                  - penalty_coverage cfg * poor_coverage_percentage (coverage_analysis res)
                  - penalty_texture cfg * (1 - texture_consistency_score (texture_analysis res)))"
    by (simp add: res run_pipeline_def Let_def aggregate_score_def)
  have "0 \<le> overall_score res \<and> overall_score res \<le> 100"
    by (subst (1 2) score) (rule clamp_bounds, simp)
  with score show ?thesis by blast
qed

lemma result_regions_range:
  assumes "analyze M cfg before after = Inr res" and "reg \<in> set (problem_regions res)"
  shows "region_issue_type reg \<in>
           {''uneven_coverage'', ''color_inconsistency'', ''over_application'',
            ''texture_variation''} \<and>
         0 \<le> region_confidence reg \<and> region_confidence reg \<le> 1 \<and>
         (0 < cellSize cfg \<longrightarrow>
            region_x reg + region_width reg \<le> img_width before \<and>
            region_y reg + region_height reg \<le> img_height before)"
proof -
  let ?after = "normalize_after M before after"
  have res: "res = run_pipeline M cfg before ?after"
    using assms(1) by (rule analyze_Inr)
  from assms(2) obtain C
    where C: "C \<in> set (region_members cfg (cell_metrics M cfg before ?after))"
      and reg: "reg = mk_region cfg C"
    by (auto simp: res problem_regions_run)
  show ?thesis
    unfolding reg
    using region_issue_type_closed [of cfg C] region_confidence_range [of cfg C]
      region_inside_image [OF _ C]
    by blast
qed

text \<open>
  The severity of a region is the largest fused severity of its member cells, and the
  fused severity is the weighted combination of three scores in [0,1]. It lies in [0,1]
  when the fusion weights are non-negative and sum to at most 1 (\<open>region_severity_range\<close>).
  The specification leaves the weights free, and with the weights 1, 1, 1 the concrete
  analysis is accepted and its two regions have the severities 16/15 and 79/60.
\<close>

lemma unit_weights_region_severity:
  "analyze example_measures
     (example_config\<lparr>weight_color := 1, weight_coverage := 1, weight_texture := 1\<rparr>)
     example_before example_after =
   Inr (run_pipeline example_measures
     (example_config\<lparr>weight_color := 1, weight_coverage := 1, weight_texture := 1\<rparr>)
     example_before example_after) \<and>
   map region_severity (problem_regions (run_pipeline example_measures
     (example_config\<lparr>weight_color := 1, weight_coverage := 1, weight_texture := 1\<rparr>)
     example_before example_after)) = [16 / 15, 79 / 60]"
proof -
  let ?cfg = "example_config\<lparr>weight_color := 1, weight_coverage := 1, weight_texture := 1\<rparr>"
  have a: "analyze example_measures ?cfg example_before example_after =
      Inr (run_pipeline example_measures ?cfg example_before example_after)"
    by (simp add: analyze_def normalize_after_def example_config_def
        example_before_def example_after_def)
  have ms: "cell_metrics example_measures ?cfg example_before example_after =
      [example_cell_a, example_cell_b, example_cell_c, example_cell_d]"
    using example_metrics by (simp add: cell_metrics_def)
  have fl: "filter (is_flagged ?cfg)
      [example_cell_a, example_cell_b, example_cell_c, example_cell_d] =
      [example_cell_a, example_cell_b, example_cell_d]"
    by (simp add: example_cells example_config_def is_flagged_def fused_severity_def
        color_share_def coverage_share_def texture_share_def clamp_def)
  have members: "region_members ?cfg
      (cell_metrics example_measures ?cfg example_before example_after) =
      [example_cell_a, example_cell_b] # [example_cell_d] # []"
    unfolding ms region_members_def fl
    by (simp add: example_cells cell_adjacent_def adjacent_def)
  have sev: "map region_severity (problem_regions
      (run_pipeline example_measures ?cfg example_before example_after)) = [16 / 15, 79 / 60]"
    unfolding problem_regions_run members
    by (simp add: mk_region_def Let_def example_cells example_config_def
        fused_severity_def color_share_def coverage_share_def texture_share_def clamp_def)
  from a sev show ?thesis by simp
qed

subsection \<open>Identical images\<close>

text \<open>
  When the before and after images are the same image, every cell has colour distance 0,
  intensity delta 0 and texture difference 0. For a positive cell size and colour and
  detection thresholds that are not negative, no cell is flagged, the change percentage is
  0 and the texture consistency score is 1. A delta of 0 falls below a positive low
  threshold, so every cell of a non-empty image is then poor coverage, and the score is
  100 less the coverage penalty on that percentage, clamped; it is 100 when the low
  threshold is not positive.
\<close>

lemma identical_images:
  assumes "analyze M cfg img img = Inr res"
    and "0 < cellSize cfg" and "0 \<le> color_threshold cfg" and "0 \<le> detection_threshold cfg"
  shows "issues_detected res = 0 \<and>
         change_percentage (color_analysis res) = 0 \<and>
         texture_consistency_score (texture_analysis res) = 1 \<and>
         poor_coverage_percentage (coverage_analysis res) =
           (if 0 < low_threshold cfg \<and> 0 < img_width img \<and> 0 < img_height img then 100 else 0) \<and>
         overall_score res =
           clamp 0 100 (100 - penalty_coverage cfg * poor_coverage_percentage (coverage_analysis res)) \<and>
         (low_threshold cfg \<le> 0 \<longrightarrow> overall_score res = 100)"
proof -
  let ?ms = "cell_metrics M cfg img img"
  have same: "normalize_after M img img = img" by (simp add: normalize_after_def)
  have res: "res = run_pipeline M cfg img img"
    using analyze_Inr [OF assms(1)] by (simp add: same)
  have zero: "cm_color_distance m = 0 \<and> cm_intensity_delta m = 0 \<and>
              cm_texture_normalized m = 0 \<and> fused_severity cfg m = 0"
    if "m \<in> set ?ms" for m
    using that by (auto simp: cell_metrics_def measure_cell_same fused_severity_same)
  have "filter (is_flagged cfg) ?ms = []"
    using zero assms(4) by (auto simp: filter_empty_conv is_flagged_def)
  then have issues: "issues_detected res = 0"
    by (simp add: res run_pipeline_def Let_def detect_regions_def region_members_def)
  have change: "change_percentage (color_analysis res) = 0"
    using zero assms(3)
    by (simp add: res run_pipeline_def Let_def analyze_color_def percentage_none)
  have "mean (map cm_texture_normalized ?ms) = 0"
    using zero by (intro mean_zero) auto
  then have texture: "texture_consistency_score (texture_analysis res) = 1"
    by (simp add: res run_pipeline_def Let_def analyze_texture_def)
  have empty: "(?ms = []) = (img_width img = 0 \<or> img_height img = 0)"
    using grid_cells_empty_iff [OF assms(2)] by (simp add: cell_metrics_def)
  have poor: "poor_coverage_percentage (coverage_analysis res) =
           (if 0 < low_threshold cfg \<and> 0 < img_width img \<and> 0 < img_height img then 100 else 0)"
  proof (cases "0 < low_threshold cfg \<and> ?ms \<noteq> []")
    case True
    then have "percentage (\<lambda>m. cm_intensity_delta m < low_threshold cfg) ?ms = 100"
      using zero by (intro percentage_all) auto
    with True empty show ?thesis
      by (simp add: res run_pipeline_def Let_def analyze_coverage_def)
  next
    case False
    then have "percentage (\<lambda>m. cm_intensity_delta m < low_threshold cfg) ?ms = 0"
      using zero by (cases "?ms = []") (auto simp: percentage_def filter_empty_conv)
    with False empty show ?thesis
      by (auto simp add: res run_pipeline_def Let_def analyze_coverage_def)
  qed
  have score: "overall_score res =
           clamp 0 100 (100 - penalty_coverage cfg * poor_coverage_percentage (coverage_analysis res))"
    using change texture
    by (simp add: res run_pipeline_def Let_def aggregate_score_def)
  have "overall_score res = 100" if "low_threshold cfg \<le> 0"
    using that poor score by (simp add: clamp_def)
  with issues change texture poor score show ?thesis by blast
qed

text \<open>
  On the concrete configuration (low threshold 10, coverage penalty weight 1/4) the uniform
  image compared with itself has a poor-coverage percentage of 100 and a score of 75.
\<close>

lemma identical_images_example:
  "analyze example_measures example_config example_before example_before =
     Inr (run_pipeline example_measures example_config example_before example_before) \<and>
   poor_coverage_percentage (coverage_analysis
     (run_pipeline example_measures example_config example_before example_before)) = 100 \<and>
   overall_score (run_pipeline example_measures example_config example_before example_before) = 75 \<and>
   overall_score (run_pipeline example_measures example_config example_before example_before) \<noteq> 100"
proof -
  have ms: "cell_metrics example_measures example_config example_before example_before =
     [example_cell_c\<lparr>cm_cell := (0, 0), cm_rect := \<lparr>rect_x = 0, rect_y = 0, rect_w = 2, rect_h = 2\<rparr>\<rparr>,
      example_cell_c\<lparr>cm_cell := (0, 1), cm_rect := \<lparr>rect_x = 2, rect_y = 0, rect_w = 2, rect_h = 2\<rparr>\<rparr>,
      example_cell_c,
      example_cell_c\<lparr>cm_cell := (0, 3), cm_rect := \<lparr>rect_x = 6, rect_y = 0, rect_w = 1, rect_h = 2\<rparr>\<rparr>]"
    by (simp add: cell_metrics_def example_grid example_config_fields example_cells
      example_before_def example_measures_def measure_cell_def pixel_at_def
      euclid_def normalized_difference_def)
  have a: "analyze example_measures example_config example_before example_before =
     Inr (run_pipeline example_measures example_config example_before example_before)"
    using example_analyze_same [of 10] by (simp add: example_config_def)
  have p: "poor_coverage_percentage (coverage_analysis
     (run_pipeline example_measures example_config example_before example_before)) = 100"
    by (simp add: run_pipeline_def Let_def ms analyze_coverage_def percentage_def
        example_cells example_config_fields)
  have s: "overall_score (run_pipeline example_measures example_config example_before example_before) = 75"
    by (simp add: run_pipeline_def Let_def ms aggregate_score_def analyze_coverage_def
        analyze_color_def analyze_texture_def percentage_def mean_def clamp_def
        example_cells example_config_fields)
  from a p s show ?thesis by simp
qed

subsection \<open>Thresholds and the number of regions\<close>

text \<open>
  The engine has two thresholds that bear on colour. The "changed" threshold of the colour
  axis only feeds the change percentage: the regions do not depend on it. The detection
  threshold on the fused severity decides which cells are flagged: raising it can only
  remove flagged cells, and removing a cell from the middle of a region leaves two regions
  where there was one.
\<close>

lemma shares_color_threshold:
  "color_share (cfg\<lparr>color_threshold := t\<rparr>) = color_share cfg"
  "coverage_share (cfg\<lparr>color_threshold := t\<rparr>) = coverage_share cfg"
  "texture_share (cfg\<lparr>color_threshold := t\<rparr>) = texture_share cfg"
  "fused_severity (cfg\<lparr>color_threshold := t\<rparr>) = fused_severity cfg"
  by (simp_all add: fun_eq_iff fused_severity_def color_share_def coverage_share_def
      texture_share_def)

lemma mk_region_color_threshold:
  "mk_region (cfg\<lparr>color_threshold := t\<rparr>) ms = mk_region cfg ms"
  by (simp add: mk_region_def classify_def region_axis_def driving_axis_def
      shares_color_threshold)

lemma regions_ignore_color_threshold:
  "problem_regions (run_pipeline M (cfg\<lparr>color_threshold := t\<rparr>) before after) =
   problem_regions (run_pipeline M cfg before after)"
proof -
  have "is_flagged (cfg\<lparr>color_threshold := t\<rparr>) = is_flagged cfg"
    by (simp add: fun_eq_iff is_flagged_def shares_color_threshold)
  moreover have "mk_region (cfg\<lparr>color_threshold := t\<rparr>) = mk_region cfg"
    by (simp add: fun_eq_iff mk_region_color_threshold)
  ultimately show ?thesis
    by (simp add: problem_regions_run region_members_def cell_metrics_def)
qed

lemma flagged_antimono:
  "t \<le> t' \<Longrightarrow> is_flagged (cfg\<lparr>detection_threshold := t'\<rparr>) m \<Longrightarrow>
   is_flagged (cfg\<lparr>detection_threshold := t\<rparr>) m"
  by (simp add: is_flagged_def fused_severity_def color_share_def coverage_share_def
      texture_share_def)

lemma raised_detection_threshold_splits_region:
  "length (region_members (example_config\<lparr>detection_threshold := 1 / 10\<rparr>)
     [example_cell_a,
      example_cell_b\<lparr>cm_color_distance := 30, cm_intensity_delta := 0\<rparr>,
      example_cell_a\<lparr>cm_cell := (0, 2)\<rparr>]) = 1 \<and>
   length (region_members (example_config\<lparr>detection_threshold := 1 / 5\<rparr>)
     [example_cell_a,
      example_cell_b\<lparr>cm_color_distance := 30, cm_intensity_delta := 0\<rparr>,
      example_cell_a\<lparr>cm_cell := (0, 2)\<rparr>]) = 2"
  by (simp add: region_members_def example_cells example_config_def is_flagged_def
      fused_severity_def color_share_def coverage_share_def texture_share_def clamp_def
      cell_adjacent_def adjacent_def)

end
